theory Spec2Isabelle
  imports Complex_Main "HOL-Library.Word" "HOL-Library.Sublist" "HOL-Library.AList"
begin

section \<open>JavaScript strings\<close>

text \<open>
  A JavaScript string is a sequence of UTF-16 code units. The proxy and the polling
  client compare code units (\<open>trim\<close>, \<open>split\<close>, \<open>endsWith\<close>, the regular
  expressions without the \<open>u\<close> flag), so a string is modelled as a list of 16-bit
  words. \<open>js\<close> turns an ASCII literal of the source into such a list.
\<close>

type_synonym code_unit = "16 word"
type_synonym jsstring = "code_unit list"

definition js :: "string \<Rightarrow> jsstring" where
  "js s = map of_char s"

definition LF :: code_unit where
  "LF = 0xA"

definition CR :: code_unit where
  "CR = 0xD"

definition comma :: code_unit where
  "comma = 0x2C"

definition digit :: "nat \<Rightarrow> code_unit" where
  "digit d = of_nat (48 + d)"

text \<open>Number-to-string conversion of a non-negative integer (template literals).\<close>

fun decimal :: "nat \<Rightarrow> jsstring" where
  "decimal n = (if n < 10 then [digit n] else decimal (n div 10) @ [digit (n mod 10)])"

declare decimal.simps [simp del]

text \<open>
  \<open>String.prototype.trim\<close> removes the code units of ECMAScript's WhiteSpace and
  LineTerminator productions from both ends: tab, LF, VT, FF, CR, space, no-break
  space, the byte-order mark U+FEFF, the line and paragraph separators and the other
  members of Unicode's category Zs.
\<close>

definition is_space :: "code_unit \<Rightarrow> bool" where
  "is_space c =
     (c \<in> {0x9, 0xA, 0xB, 0xC, 0xD, 0x20, 0xA0, 0x1680, 0x2028, 0x2029, 0x202F, 0x205F, 0x3000, 0xFEFF}
      \<or> (0x2000 \<le> c \<and> c \<le> 0x200A))"

definition trim :: "jsstring \<Rightarrow> jsstring" where
  "trim s = rev (dropWhile is_space (rev (dropWhile is_space s)))"

definition endsWith :: "jsstring \<Rightarrow> jsstring \<Rightarrow> bool" where
  "endsWith s x = suffix x s"

text \<open>\<open>text.split(/\r?\n/)\<close>: a separator is CR LF or a single LF; the result is never empty.\<close>

fun split_lines :: "jsstring \<Rightarrow> jsstring list" where
  "split_lines [] = [[]]"
| "split_lines (c # cs) =
     (if c = LF then [] # split_lines cs
      else if c = CR \<and> cs \<noteq> [] \<and> hd cs = LF then [] # split_lines (tl cs)
      else (case split_lines cs of l # ls \<Rightarrow> (c # l) # ls | [] \<Rightarrow> [[c]]))"

text \<open>\<open>Array.prototype.join\<close> on an array of strings.\<close>

fun join :: "jsstring list \<Rightarrow> jsstring \<Rightarrow> jsstring" where
  "join [] sep = []"
| "join [l] sep = l"
| "join (l # ls) sep = l @ sep @ join ls sep"

text \<open>
  An error object as the code reads it: its \<open>name\<close>, its \<open>message\<close> and the
  \<open>status\<close> property the polling client attaches to the errors it creates.
\<close>

record js_error =
  err_name :: jsstring
  err_message :: jsstring
  err_status :: "nat option"

section \<open>The backoff sequence generator (polling.js)\<close>

text \<open>
  \<^verbatim>\<open>
  function* backoffIterator(maxAttempts = 60, capMs = 15000) {
    let a = 1000; let b = 2000; let attempt = 0;
    while (attempt < maxAttempts) {
      const delay = Math.min(b, capMs);
      yield delay;
      const next = a + b; a = b; b = next; attempt++;
    }
  }
  \<close>
  A generator object is its suspended state; \<open>gen_next\<close> is one call of
  \<open>it.next()\<close>, returning the yielded value (\<open>None\<close> when the generator is done)
  and the state after it. The numbers stay far below \<open>2^53\<close> for the 60 attempts the
  polling client asks for, so they are natural numbers here.
\<close>

record backoff =
  gen_a :: nat
  gen_b :: nat
  gen_attempt :: nat
  gen_maxAttempts :: nat
  gen_capMs :: nat

definition backoffIterator :: "nat \<Rightarrow> nat \<Rightarrow> backoff" where
  "backoffIterator maxAttempts capMs =
     \<lparr>gen_a = 1000, gen_b = 2000, gen_attempt = 0,
      gen_maxAttempts = maxAttempts, gen_capMs = capMs\<rparr>"

definition gen_next :: "backoff \<Rightarrow> nat option \<times> backoff" where
  "gen_next g =
     (if gen_attempt g < gen_maxAttempts g
      then (Some (min (gen_b g) (gen_capMs g)),
            g\<lparr>gen_a := gen_b g, gen_b := gen_a g + gen_b g, gen_attempt := gen_attempt g + 1\<rparr>)
      else (None, g))"

text \<open>The whole sequence a generator yields, in order.\<close>

function delays :: "backoff \<Rightarrow> nat list" where
  "delays g = (case gen_next g of (None, _) \<Rightarrow> [] | (Some d, g') \<Rightarrow> d # delays g')"
  by pat_completeness auto
termination
  by (relation "measure (\<lambda>g. gen_maxAttempts g - gen_attempt g)")
     (auto simp: gen_next_def split: if_splits)

declare delays.simps [simp del]

section \<open>The polling client (polling.js)\<close>

text \<open>
  One polling session talks to three things outside the code: the fetch-result
  endpoint, the caller's abort signal and the timer. They are the session's
  environment, indexed by the loop's \<open>attempt\<close> counter:
  \<^item> \<open>fetch_result i\<close> is how the \<open>fetch\<close> of iteration \<open>i\<close> settles: a response
    with its status and the text \<open>resp.text()\<close> gives (\<open>None\<close> when that promise
    rejects), or a rejection with the error's \<open>name\<close> and \<open>message\<close>;
  \<^item> \<open>signal\<close> is the caller's \<open>AbortSignal\<close>, if one was passed:
    \<open>aborted_at i\<close> is \<open>signal.aborted\<close> as read at the top of iteration \<open>i\<close>, and
    \<open>fires_in_wait i\<close> says that the abort event is dispatched while the timer of
    iteration \<open>i\<close> is pending;
  \<^item> \<open>onTick\<close> says whether the caller passed a progress callback.
  What the session does is recorded as a trace of events.
\<close>

datatype fetch_outcome =
    Response nat "jsstring option"
  | Rejected jsstring jsstring

record abort_signal =
  aborted_at :: "nat \<Rightarrow> bool"
  fires_in_wait :: "nat \<Rightarrow> bool"

record session =
  signal :: "abort_signal option"
  onTick :: bool
  fetch_result :: "nat \<Rightarrow> fetch_outcome"

datatype event =
    Fetch nat
  | Tick nat nat jsstring
  | Wait nat
  | WaitAborted nat
  | Download

definition Error_with_status :: "jsstring \<Rightarrow> nat \<Rightarrow> js_error" where
  "Error_with_status msg st = \<lparr>err_name = js ''Error'', err_message = msg, err_status = Some st\<rparr>"

definition AbortError :: js_error where
  "AbortError = \<lparr>err_name = js ''AbortError'', err_message = js ''Aborted'', err_status = None\<rparr>"

definition tick :: "session \<Rightarrow> nat \<Rightarrow> nat \<Rightarrow> jsstring \<Rightarrow> event list" where
  "tick s attempt st msg = (if onTick s then [Tick attempt st msg] else [])"

text \<open>
  The body of the \<open>try\<close> block of one iteration. The result is the events it produced
  and how it ended: \<open>Inl e\<close> when it threw \<open>e\<close>, \<open>Inr True\<close> when it returned
  \<open>{ ready: true }\<close>, \<open>Inr False\<close> when it fell through to the wait.
\<close>

definition try_block :: "session \<Rightarrow> nat \<Rightarrow> event list \<times> (js_error + bool)" where
  "try_block s attempt =
     (case fetch_result s attempt of
        Rejected name msg \<Rightarrow>
          ([Fetch attempt], Inl \<lparr>err_name = name, err_message = msg, err_status = None\<rparr>)
      | Response st text \<Rightarrow>
          if st = 200 then (Fetch attempt # tick s attempt 200 (js ''ready''), Inr True)
          else if st = 202 then (Fetch attempt # tick s attempt 202 (js ''not ready''), Inr False)
          else if st = 400 then
            (let msg = js ''Invalid or malformed token.''
             in (Fetch attempt # tick s attempt 400 msg, Inl (Error_with_status msg 400)))
          else if st = 410 then
            (let msg = js ''Result expired. Please start a new job.''
             in (Fetch attempt # tick s attempt 410 msg, Inl (Error_with_status msg 410)))
          else
            (let t = (case text of None \<Rightarrow> [] | Some t \<Rightarrow> t);
                 msg = js ''Unexpected status '' @ decimal st @ (if t \<noteq> [] then js '': '' @ t else [])
             in (Fetch attempt # tick s attempt st msg, Inl (Error_with_status msg st))))"

text \<open>
  The \<open>catch\<close> clause of the same iteration: an \<open>AbortError\<close> is thrown again
  (\<open>Some e\<close>), every other error is reported to \<open>onTick\<close> with status 0 and
  swallowed (\<open>None\<close>).
\<close>

definition catch_block :: "session \<Rightarrow> nat \<Rightarrow> js_error \<Rightarrow> event list \<times> js_error option" where
  "catch_block s attempt e =
     (if err_name e = js ''AbortError'' then ([], Some e)
      else (tick s attempt 0 (if err_message e \<noteq> [] then err_message e else js ''Network error''),
            None))"

definition entry_aborted :: "session \<Rightarrow> nat \<Rightarrow> bool" where
  "entry_aborted s attempt = (case signal s of None \<Rightarrow> False | Some sg \<Rightarrow> aborted_at sg attempt)"

definition wait_aborted :: "session \<Rightarrow> nat \<Rightarrow> bool" where
  "wait_aborted s attempt = (case signal s of None \<Rightarrow> False | Some sg \<Rightarrow> fires_in_wait sg attempt)"

definition timed_out :: js_error where
  "timed_out = Error_with_status (js ''Polling timed out'') 504"

text \<open>
  The \<open>for (;;)\<close> loop of \<open>pollForReady\<close>, from the top of an iteration: the
  generator \<open>it\<close>, the counter \<open>attempt\<close> and the trace so far are its state. It
  ends because every iteration that loops has taken a value from the generator.
\<close>

function poll_loop :: "session \<Rightarrow> backoff \<Rightarrow> nat \<Rightarrow> event list \<Rightarrow> (js_error + bool) \<times> event list" where
  "poll_loop s it attempt tr =
     (if entry_aborted s attempt then (Inl AbortError, tr)
      else
        (case try_block s attempt of
           (evs, Inr ready) \<Rightarrow>
             if ready then (Inr True, tr @ evs)
             else
               (case gen_next it of
                  (None, _) \<Rightarrow> (Inl timed_out, tr @ evs)
                | (Some delay, it') \<Rightarrow>
                    if wait_aborted s attempt then (Inl AbortError, tr @ evs @ [WaitAborted delay])
                    else poll_loop s it' (attempt + 1) (tr @ evs @ [Wait delay]))
         | (evs, Inl e) \<Rightarrow>
             (case catch_block s attempt e of
                (evs', Some e') \<Rightarrow> (Inl e', tr @ evs @ evs')
              | (evs', None) \<Rightarrow>
                  (case gen_next it of
                     (None, _) \<Rightarrow> (Inl timed_out, tr @ evs @ evs')
                   | (Some delay, it') \<Rightarrow>
                       if wait_aborted s attempt
                       then (Inl AbortError, tr @ evs @ evs' @ [WaitAborted delay])
                       else poll_loop s it' (attempt + 1) (tr @ evs @ evs' @ [Wait delay])))))"
  by pat_completeness auto
termination
  by (relation "measure (\<lambda>(s, it, attempt, tr). gen_maxAttempts it - gen_attempt it)")
     (auto simp: gen_next_def split: if_splits)

declare poll_loop.simps [simp del]

definition pollForReady :: "session \<Rightarrow> (js_error + bool) \<times> event list" where
  "pollForReady s = poll_loop s (backoffIterator 60 15000) 0 []"

text \<open>
  \<open>waitAndDownload\<close>: the download is triggered when \<open>pollForReady\<close> returned a
  result whose \<open>ready\<close> is true; an error thrown by \<open>pollForReady\<close> passes through.
\<close>

definition waitAndDownload :: "session \<Rightarrow> (js_error + bool) \<times> event list" where
  "waitAndDownload s =
     (case pollForReady s of
        (Inr ready, tr) \<Rightarrow> (Inr ready, if ready then tr @ [Download] else tr)
      | (Inl e, tr) \<Rightarrow> (Inl e, tr))"

text \<open>
  Notions the statements about sessions use: the number of fetch calls, of waits
  (finished or interrupted) and of downloads in a trace; \<open>retried\<close>, a fetch
  outcome after which the loop goes on to its wait (anything but status 200 and a
  rejection named \<open>AbortError\<close>); and \<open>proceeds\<close>, an iteration that runs to
  the end of its wait without being cancelled.
\<close>

definition is_Fetch :: "event \<Rightarrow> bool" where
  "is_Fetch e = (case e of Fetch _ \<Rightarrow> True | _ \<Rightarrow> False)"

definition is_Wait :: "event \<Rightarrow> bool" where
  "is_Wait e = (case e of Wait _ \<Rightarrow> True | WaitAborted _ \<Rightarrow> True | _ \<Rightarrow> False)"

definition fetches :: "event list \<Rightarrow> nat" where
  "fetches tr = length (filter is_Fetch tr)"

definition waits :: "event list \<Rightarrow> nat" where
  "waits tr = length (filter is_Wait tr)"

definition downloads :: "event list \<Rightarrow> nat" where
  "downloads tr = length (filter (\<lambda>e. e = Download) tr)"

definition retried :: "fetch_outcome \<Rightarrow> bool" where
  "retried r = (case r of Response st _ \<Rightarrow> st \<noteq> 200 | Rejected name _ \<Rightarrow> name \<noteq> js ''AbortError'')"

definition proceeds :: "session \<Rightarrow> nat \<Rightarrow> bool" where
  "proceeds s i = (\<not> entry_aborted s i \<and> retried (fetch_result s i) \<and> \<not> wait_aborted s i)"

text \<open>Two sessions that are cancelled: before the second call, and during the first wait.\<close>

definition cancelled_before_second_call :: session where
  "cancelled_before_second_call =
     \<lparr>signal = Some \<lparr>aborted_at = (\<lambda>i. 1 \<le> i), fires_in_wait = (\<lambda>i. False)\<rparr>,
      onTick = True,
      fetch_result = (\<lambda>i. Response 202 None)\<rparr>"

definition cancelled_in_first_wait :: session where
  "cancelled_in_first_wait =
     \<lparr>signal = Some \<lparr>aborted_at = (\<lambda>i. 1 \<le> i), fires_in_wait = (\<lambda>i. i = 0)\<rparr>,
      onTick = True,
      fetch_result = (\<lambda>i. Response 202 None)\<rparr>"

section \<open>The CSV validator and the header expansion (api/marketing/generate\_dm\_list.js)\<close>

definition ALLOWED_HEADERS :: "jsstring list" where
  "ALLOWED_HEADERS = [js ''userName,userLink,directMessage'', js ''userName,userLink'']"

definition MAX_TARGETS :: nat where
  "MAX_TARGETS = 300"

text \<open>
  A validator returns \<open>{ ok: true, ... }\<close> or \<open>{ ok: false, error, code }\<close>:
  \<open>Valid\<close> carries what the first holds beside \<open>ok\<close>, \<open>Invalid\<close> the error
  message and the code.
\<close>

datatype 'a validation = Valid 'a | Invalid jsstring jsstring

text \<open>The \<open>replace\<close> that removes one leading byte-order mark (U+FEFF).\<close>

definition strip_bom :: "jsstring \<Rightarrow> jsstring" where
  "strip_bom s = (case s of [] \<Rightarrow> s | c # cs \<Rightarrow> if c = 0xFEFF then cs else s)"

text \<open>The first line, \<open>lines[0] || ''\<close>.\<close>

definition first_line :: "jsstring list \<Rightarrow> jsstring" where
  "first_line lines = (case lines of [] \<Rightarrow> [] | l # _ \<Rightarrow> l)"

definition validateCsv :: "jsstring \<Rightarrow> nat validation" where
  "validateCsv csvText =
     (let text = strip_bom csvText;
          lines = split_lines text;
          header = trim (first_line lines)
      in if \<not> List.member ALLOWED_HEADERS header
         then Invalid (js ''Invalid header. Expected one of: '' @ join ALLOWED_HEADERS (js '' | ''))
                      (js ''INVALID_HEADER'')
         else
           (let count = length (filter (\<lambda>l. length (trim l) > 0) (drop 1 lines))
            in if count = 0 then Invalid (js ''No rows found after header.'') (js ''EMPTY_ROWS'')
               else if count > MAX_TARGETS
               then Invalid (js ''Too many rows: '' @ decimal count @ js ''. Maximum allowed is ''
                               @ decimal MAX_TARGETS @ js ''.'')
                            (js ''TOO_MANY_ROWS'')
               else Valid count))"

text \<open>
  The handler's transform of a validated body (the block that computes
  \<open>csvToSend\<close>): under the two-column header the header line is replaced and every
  line after it goes through \<open>expand_row\<close>, the body of the \<open>for\<close> loop; under the
  other header the text is sent as it came. Nothing in the block can throw, so its
  \<open>catch\<close> is never entered.
\<close>

definition expand_row :: "jsstring \<Rightarrow> jsstring" where
  "expand_row line =
     (if line = [] \<or> trim line = [] then line
      else if endsWith line (js '','') then line else line @ js '','')"

definition csvToSend :: "jsstring \<Rightarrow> jsstring" where
  "csvToSend csvText =
     (let lines = split_lines (strip_bom csvText);
          header = trim (first_line lines)
      in if header = js ''userName,userLink''
         then join (js ''userName,userLink,directMessage'' # map expand_row (drop 1 lines)) (js ''\<newline>'')
         else csvText)"

text \<open>
  Notions the statements about CSV bodies use: the lines of a body as the validator
  and the transform read it (\<open>source_lines\<close>), its header and the number of its
  data rows (the non-blank lines after the first) as the validator reads them, and the
  lines of a forwarded body as the transform wrote them, joined with one LF each
  (\<open>forwarded_lines\<close>). \<open>chop_CR\<close> is what the validator's line splitting makes
  of a line that is followed by LF: a CR at its end belongs to the separator.
\<close>

definition blank :: "jsstring \<Rightarrow> bool" where
  "blank l = (trim l = [])"

definition header_of :: "jsstring \<Rightarrow> jsstring" where
  "header_of csvText = trim (first_line (split_lines (strip_bom csvText)))"

definition data_rows :: "jsstring \<Rightarrow> nat" where
  "data_rows csvText = length (filter (\<lambda>l. \<not> blank l) (drop 1 (split_lines (strip_bom csvText))))"

fun split_LF :: "jsstring \<Rightarrow> jsstring list" where
  "split_LF [] = [[]]"
| "split_LF (c # cs) =
     (if c = LF then [] # split_LF cs
      else (case split_LF cs of l # ls \<Rightarrow> (c # l) # ls | [] \<Rightarrow> [[c]]))"

definition source_lines :: "jsstring \<Rightarrow> jsstring list" where
  "source_lines csvText = split_lines (strip_bom csvText)"

definition forwarded_lines :: "jsstring \<Rightarrow> jsstring list" where
  "forwarded_lines csvText = split_LF (csvToSend csvText)"

definition chop_CR :: "jsstring \<Rightarrow> jsstring" where
  "chop_CR l = (if l \<noteq> [] \<and> last l = CR then butlast l else l)"

text \<open>An example family: the canonical header followed by \<open>n\<close> copies of one data row.\<close>

definition csv_with_rows :: "nat \<Rightarrow> jsstring" where
  "csv_with_rows n = join (js ''userName,userLink,directMessage'' # replicate n (js ''alice,https://x/alice,Hi'')) [LF]"

section \<open>The leads payload validator (api/marketing/generate\_leads.js)\<close>

text \<open>
  The values \<open>JSON.parse\<close> produces. An object is the list of its own properties;
  a property that is not there reads as \<open>undefined\<close>, which is \<open>None\<close> here. The
  code never looks at the value of a number.
\<close>

datatype json =
    JNull
  | JBool bool
  | JNum real
  | JStr jsstring
  | JArr "json list"
  | JObj "(jsstring \<times> json) list"

definition typeof :: "json option \<Rightarrow> jsstring" where
  "typeof v =
     (case v of
        None \<Rightarrow> js ''undefined''
      | Some JNull \<Rightarrow> js ''object''
      | Some (JBool _) \<Rightarrow> js ''boolean''
      | Some (JNum _) \<Rightarrow> js ''number''
      | Some (JStr _) \<Rightarrow> js ''string''
      | Some (JArr _) \<Rightarrow> js ''object''
      | Some (JObj _) \<Rightarrow> js ''object'')"

text \<open>
  Reading the property \<open>key\<close> of a parsed value, for the keys the handlers read
  (\<open>seedUserNames\<close>, \<open>filters\<close>, \<open>resultUrl\<close>): an object has it when it is one of
  its own properties; arrays, strings, numbers and booleans do not have it.
\<close>

definition property :: "json \<Rightarrow> jsstring \<Rightarrow> json option" where
  "property v key = (case v of JObj kvs \<Rightarrow> map_of kvs key | _ \<Rightarrow> None)"

text \<open>
  The \<open>for (const u of seedUserNames)\<close> loop: \<open>False\<close> as soon as an element is
  not a string or is blank after \<open>trim\<close>.
\<close>

fun seed_items_ok :: "json list \<Rightarrow> bool" where
  "seed_items_ok [] = True"
| "seed_items_ok (u # us) =
     (case u of
        JStr s \<Rightarrow> if length (trim s) = 0 then False else seed_items_ok us
      | _ \<Rightarrow> False)"

definition validatePayload :: "json \<Rightarrow> unit validation" where
  "validatePayload payload =
     (if typeof (Some payload) \<noteq> js ''object'' \<or> payload = JNull
      then Invalid (js ''Body must be a JSON object.'') (js ''INVALID_JSON'')
      else
        (let seedUserNames = property payload (js ''seedUserNames'');
             filters = property payload (js ''filters'')
         in case seedUserNames of
              Some (JArr us) \<Rightarrow>
                if length us = 0
                then Invalid (js ''seedUserNames must be a non-empty array of strings.'') (js ''INVALID_SEED'')
                else if \<not> seed_items_ok us
                then Invalid (js ''Each seed user name must be a non-empty string.'') (js ''INVALID_SEED_ITEM'')
                else if filters \<noteq> None \<and> typeof filters \<noteq> js ''object''
                then Invalid (js ''filters must be an object if provided.'') (js ''INVALID_FILTERS'')
                else Valid ()
            | _ \<Rightarrow>
                Invalid (js ''seedUserNames must be a non-empty array of strings.'') (js ''INVALID_SEED'')))"

text \<open>
  Notions the statements about payloads use: an element of \<open>seedUserNames\<close> that
  the validator lets pass (a string that is not blank), and a JSON value whose
  \<open>typeof\<close> is not \<open>object\<close> (a boolean, a number or a string). Two payloads
  serve as examples.
\<close>

definition nonblank_string :: "json \<Rightarrow> bool" where
  "nonblank_string u = (case u of JStr s \<Rightarrow> \<not> blank s | _ \<Rightarrow> False)"

definition primitive :: "json \<Rightarrow> bool" where
  "primitive v = (case v of JBool _ \<Rightarrow> True | JNum _ \<Rightarrow> True | JStr _ \<Rightarrow> True | _ \<Rightarrow> False)"

definition leads_with_null_filters :: json where
  "leads_with_null_filters = JObj [(js ''seedUserNames'', JArr [JStr (js ''alice'')]), (js ''filters'', JNull)]"

definition leads_with_text_filters :: json where
  "leads_with_text_filters =
     JObj [(js ''seedUserNames'', JArr [JStr (js ''alice'')]), (js ''filters'', JStr (js ''verified''))]"

section \<open>The result-URL rewriter (both submit handlers)\<close>

subsection \<open>\<open>encodeURIComponent\<close>\<close>

text \<open>
  ECMAScript's \<open>encodeURIComponent\<close>: the unreserved code units pass, every other
  code point is written as the \<open>%XX\<close> escapes of its UTF-8 bytes, and a surrogate
  without its partner makes the call throw a \<open>URIError\<close> (\<open>None\<close>).
\<close>

definition is_alpha :: "code_unit \<Rightarrow> bool" where
  "is_alpha c = ((0x41 \<le> c \<and> c \<le> 0x5A) \<or> (0x61 \<le> c \<and> c \<le> 0x7A))"

definition is_digit :: "code_unit \<Rightarrow> bool" where
  "is_digit c = (0x30 \<le> c \<and> c \<le> 0x39)"

definition uri_unescaped :: "code_unit \<Rightarrow> bool" where
  "uri_unescaped c = (is_alpha c \<or> is_digit c \<or> List.member (js ''-_.!~*'' @ [0x27] @ js ''()'') c)"

definition hex_digit :: "nat \<Rightarrow> code_unit" where
  "hex_digit n = (if n < 10 then of_nat (48 + n) else of_nat (55 + n))"

definition percent :: "nat \<Rightarrow> jsstring" where
  "percent b = [0x25, hex_digit (b div 16), hex_digit (b mod 16)]"

definition utf8 :: "nat \<Rightarrow> nat list" where
  "utf8 cp =
     (if cp < 0x80 then [cp]
      else if cp < 0x800 then [0xC0 + cp div 64, 0x80 + cp mod 64]
      else if cp < 0x10000 then [0xE0 + cp div 4096, 0x80 + cp div 64 mod 64, 0x80 + cp mod 64]
      else [0xF0 + cp div 262144, 0x80 + cp div 4096 mod 64, 0x80 + cp div 64 mod 64, 0x80 + cp mod 64])"

definition escape :: "nat \<Rightarrow> jsstring" where
  "escape cp = concat (map percent (utf8 cp))"

definition lead_surrogate :: "code_unit \<Rightarrow> bool" where
  "lead_surrogate c = (0xD800 \<le> c \<and> c \<le> 0xDBFF)"

definition trail_surrogate :: "code_unit \<Rightarrow> bool" where
  "trail_surrogate c = (0xDC00 \<le> c \<and> c \<le> 0xDFFF)"

fun encodeURIComponent :: "jsstring \<Rightarrow> jsstring option" where
  "encodeURIComponent [] = Some []"
| "encodeURIComponent (c # cs) =
     (if uri_unescaped c then map_option (\<lambda>r. c # r) (encodeURIComponent cs)
      else if trail_surrogate c then None
      else if lead_surrogate c then
        (case cs of
           [] \<Rightarrow> None
         | d # ds \<Rightarrow>
             if trail_surrogate d
             then map_option (\<lambda>r. escape (0x10000 + (unat c - 0xD800) * 0x400 + (unat d - 0xDC00)) @ r)
                    (encodeURIComponent ds)
             else None)
      else map_option (\<lambda>r. escape (unat c) @ r) (encodeURIComponent cs))"

subsection \<open>The platform's URL parser\<close>

text \<open>
  \<open>rewriteResultUrl\<close> is handed \<open>data.resultUrl\<close> of the upstream's JSON: a string,
  \<open>null\<close>, or \<open>undefined\<close> when the field is missing. \<open>new URL(x)\<close> converts its
  argument to a string first; \<open>x || ''\<close> is the string itself, or the empty string for
  \<open>null\<close>, \<open>undefined\<close> and the empty string.
\<close>

datatype url_arg = Undefined | Null | Str jsstring

definition ToString :: "url_arg \<Rightarrow> jsstring" where
  "ToString x = (case x of Undefined \<Rightarrow> js ''undefined'' | Null \<Rightarrow> js ''null'' | Str s \<Rightarrow> s)"

definition or_empty :: "url_arg \<Rightarrow> jsstring" where
  "or_empty x = (case x of Str s \<Rightarrow> s | _ \<Rightarrow> [])"

text \<open>
  What \<open>new URL(s)\<close> followed by \<open>u.searchParams.get('token')\<close> gives: the
  constructor throws, or the URL parses and the lookup returns the first \<open>token\<close>
  parameter (\<open>Some\<close>, percent-decoded) or \<open>null\<close> (\<open>None\<close>).

  The URL parser belongs to the platform, not to the repository. One rule of the URL
  standard is written out, because the fallback of the rewriter exists for it: without
  a base URL, an input with no scheme fails. The parser first strips leading and
  trailing C0 controls and spaces and removes every tab and newline; the input has a
  scheme when what is left starts with an ASCII letter followed by letters, digits,
  \<open>+\<close>, \<open>-\<close> or \<open>.\<close> up to a colon. What the parser makes of an input that has a
  scheme is the parameter \<open>absolute\<close>.
\<close>

datatype url_parse = Throws | Parsed "jsstring option"

definition c0_or_space :: "code_unit \<Rightarrow> bool" where
  "c0_or_space c = (c \<le> 0x20)"

definition tab_or_newline :: "code_unit \<Rightarrow> bool" where
  "tab_or_newline c = (c = 0x9 \<or> c = 0xA \<or> c = 0xD)"

definition scheme_char :: "code_unit \<Rightarrow> bool" where
  "scheme_char c = (is_alpha c \<or> is_digit c \<or> c = 0x2B \<or> c = 0x2D \<or> c = 0x2E)"

definition has_scheme :: "jsstring \<Rightarrow> bool" where
  "has_scheme s =
     (case filter (\<lambda>c. \<not> tab_or_newline c)
             (rev (dropWhile c0_or_space (rev (dropWhile c0_or_space s)))) of
        [] \<Rightarrow> False
      | c # cs \<Rightarrow> is_alpha c \<and> (case dropWhile scheme_char cs of [] \<Rightarrow> False | d # _ \<Rightarrow> d = 0x3A))"

definition URL_token :: "(jsstring \<Rightarrow> url_parse) \<Rightarrow> jsstring \<Rightarrow> url_parse" where
  "URL_token absolute s = (if has_scheme s then absolute s else Throws)"

subsection \<open>\<open>rewriteResultUrl\<close>\<close>

text \<open>
  \<open>/[?&]token=([^&]+)/.exec(s)\<close>: the leftmost \<open>?\<close> or \<open>&\<close> that is followed
  by \<open>token=\<close> and at least one code unit other than \<open>&\<close>; the capture is the
  longest run of such code units.
\<close>

fun regex_token :: "jsstring \<Rightarrow> jsstring option" where
  "regex_token [] = None"
| "regex_token (c # cs) =
     (if (c = 0x3F \<or> c = 0x26) \<and> take 6 cs = js ''token=''
         \<and> takeWhile (\<lambda>d. d \<noteq> 0x26) (drop 6 cs) \<noteq> []
      then Some (takeWhile (\<lambda>d. d \<noteq> 0x26) (drop 6 cs))
      else regex_token cs)"

definition URIError :: js_error where
  "URIError = \<lparr>err_name = js ''URIError'', err_message = js ''URI malformed'', err_status = None\<rparr>"

text \<open>
  The \<open>try\<close> block: the encoded token when the URL parses, has a non-empty
  \<open>token\<close> and the encoding succeeds (the function returns from inside the block);
  \<open>None\<close> when the block ends without returning, which is also what its empty
  \<open>catch\<close> makes of an exception.
\<close>

definition strict_token :: "(jsstring \<Rightarrow> url_parse) \<Rightarrow> url_arg \<Rightarrow> jsstring option" where
  "strict_token absolute resultUrl =
     (case URL_token absolute (ToString resultUrl) of
        Throws \<Rightarrow> None
      | Parsed None \<Rightarrow> None
      | Parsed (Some token) \<Rightarrow> if token \<noteq> [] then encodeURIComponent token else None)"

text \<open>
  The function returns a string or throws: the second \<open>encodeURIComponent\<close> stands
  outside the \<open>try\<close>.
\<close>

definition rewriteResultUrl :: "(jsstring \<Rightarrow> url_parse) \<Rightarrow> url_arg \<Rightarrow> js_error + jsstring" where
  "rewriteResultUrl absolute resultUrl =
     (case strict_token absolute resultUrl of
        Some enc \<Rightarrow> Inr (js ''/api/results?token='' @ enc)
      | None \<Rightarrow>
          (case regex_token (or_empty resultUrl) of
             Some m \<Rightarrow>
               (case encodeURIComponent m of
                  Some enc \<Rightarrow> Inr (js ''/api/results?token='' @ enc)
                | None \<Rightarrow> Inl URIError)
           | None \<Rightarrow> Inr (js ''/api/results'')))"

text \<open>
  Notions the statements about the rewriter use: \<open>strict_parse_token\<close>, the token
  the strict parse finds (a \<open>token\<close> parameter with a non-empty value; the code
  treats an empty one like a missing one); and \<open>uri_safe\<close>, the code units that
  \<open>encodeURIComponent\<close> can put out (the unreserved ones and the percent sign).
  \<open>absolute_example\<close> is what the URL standard's parser gives for the three
  absolute URLs the examples use.
\<close>

definition uri_safe :: "code_unit \<Rightarrow> bool" where
  "uri_safe c = (uri_unescaped c \<or> c = 0x25)"

definition strict_parse_token :: "(jsstring \<Rightarrow> url_parse) \<Rightarrow> url_arg \<Rightarrow> jsstring option" where
  "strict_parse_token absolute x =
     (case URL_token absolute (ToString x) of
        Throws \<Rightarrow> None
      | Parsed None \<Rightarrow> None
      | Parsed (Some t) \<Rightarrow> if t \<noteq> [] then Some t else None)"

definition absolute_example :: "jsstring \<Rightarrow> url_parse" where
  "absolute_example s =
     (if s = js ''https://backend.internal:8080/results?token=abc%20d&x=1'' then Parsed (Some (js ''abc d''))
      else if s = js ''https://backend/results?token=backend'' then Parsed (Some (js ''backend''))
      else if s = js ''https://backend.internal:8080/results'' then Parsed None
      else Throws)"

section \<open>The proxy endpoints\<close>

text \<open>
  A handler is given the request \<open>req\<close> and the response object \<open>res\<close>, which it
  fills in and ends. The response is modelled by its status code (200 until it is
  set), its headers, and what \<open>res.end\<close> was called with: nothing (\<open>Empty\<close>), a text,
  or \<open>JSON.stringify\<close> of a value (\<open>Json\<close>). The request is its method, its URL
  and how reading its body settles (\<open>readTextBody\<close> resolves with the text or
  rejects). What a handler writes with \<open>console.error\<close> is kept beside the
  response.
\<close>

datatype payload = Empty | Text jsstring | Json json

record response =
  statusCode :: nat
  headers :: "(jsstring \<times> jsstring) list"
  ended :: "payload option"

record request =
  req_method :: jsstring
  req_url :: jsstring
  req_body :: "js_error + jsstring"

record outcome =
  sent :: response
  console_error :: "(jsstring \<times> js_error) list"

definition new_response :: response where
  "new_response = \<lparr>statusCode = 200, headers = [], ended = None\<rparr>"

definition setHeader :: "jsstring \<Rightarrow> jsstring \<Rightarrow> response \<Rightarrow> response" where
  "setHeader name v res = res\<lparr>headers := AList.update name v (headers res)\<rparr>"

definition end_with :: "payload \<Rightarrow> response \<Rightarrow> response" where
  "end_with p res = res\<lparr>ended := Some p\<rparr>"

text \<open>\<open>setCors\<close> of generate\_dm\_list.js and results.js, and the shorter one of generate\_leads.js.\<close>

definition setCors :: "response \<Rightarrow> response" where
  "setCors res =
     setHeader (js ''Access-Control-Max-Age'') (js ''86400'')
       (setHeader (js ''Access-Control-Allow-Headers'') (js ''Content-Type'')
         (setHeader (js ''Access-Control-Allow-Methods'') (js ''POST, GET, OPTIONS'')
           (setHeader (js ''Access-Control-Allow-Origin'') (js ''*'') res)))"

definition setCors_leads :: "response \<Rightarrow> response" where
  "setCors_leads res =
     setHeader (js ''Access-Control-Allow-Headers'') (js ''Content-Type'')
       (setHeader (js ''Access-Control-Allow-Methods'') (js ''POST, GET, OPTIONS'')
         (setHeader (js ''Access-Control-Allow-Origin'') (js ''*'') res))"

text \<open>
  \<open>getBackendBase\<close> reads \<open>process.env.MARKETING_BACKEND_URL\<close> (\<open>None\<close> when the
  variable is not set; the empty string is falsy too), throws when it is missing and
  otherwise removes the slashes at its end.
\<close>

definition missing_backend_url :: js_error where
  "missing_backend_url =
     \<lparr>err_name = js ''Error'',
      err_message = js ''Environment variable MARKETING_BACKEND_URL is not set'',
      err_status = None\<rparr>"

definition getBackendBase :: "jsstring option \<Rightarrow> js_error + jsstring" where
  "getBackendBase base =
     (case base of
        None \<Rightarrow> Inl missing_backend_url
      | Some b \<Rightarrow> if b = [] then Inl missing_backend_url
                  else Inr (rev (dropWhile (\<lambda>c. c = 0x2F) (rev b))))"

text \<open>
  The \<open>catch\<close> clause that closes each handler: the error goes to the console under
  the handler's label, and the response becomes the generic one whatever the error was.
\<close>

definition internal_error :: "jsstring \<Rightarrow> js_error \<Rightarrow> response \<Rightarrow> outcome" where
  "internal_error label err res =
     \<lparr>sent = end_with (Json (JObj [(js ''error'', JStr (js ''Internal Server Error''))]))
               (setHeader (js ''Content-Type'') (js ''application/json; charset=utf-8'')
                 ((setCors res)\<lparr>statusCode := 500\<rparr>)),
      console_error = [(label, err)]\<rparr>"

definition internal_error_leads :: "jsstring \<Rightarrow> js_error \<Rightarrow> response \<Rightarrow> outcome" where
  "internal_error_leads label err res =
     \<lparr>sent = end_with (Json (JObj [(js ''error'', JStr (js ''Internal Server Error''))]))
               (setHeader (js ''Content-Type'') (js ''application/json; charset=utf-8'')
                 ((setCors_leads res)\<lparr>statusCode := 500\<rparr>)),
      console_error = [(label, err)]\<rparr>"

definition completed :: "response \<Rightarrow> outcome" where
  "completed res = \<lparr>sent = res, console_error = []\<rparr>"

text \<open>The 400 answer to a body the validator refused.\<close>

definition bad_request :: "jsstring \<Rightarrow> jsstring \<Rightarrow> response \<Rightarrow> response" where
  "bad_request err code res =
     end_with (Json (JObj [(js ''error'', JStr err), (js ''code'', JStr code)]))
       (setHeader (js ''Content-Type'') (js ''application/json; charset=utf-8'')
         (res\<lparr>statusCode := 400\<rparr>))"

text \<open>
  The exchange with the upstream backend and the relay of its answer are the
  environment of a handler: \<open>forward url body res\<close> stands for the handler's code from
  its \<open>fetch\<close> call on, run on the response object \<open>res\<close> as it is then. It gives
  the response object as that code leaves it, and the error when that code throws
  (\<open>fetch\<close> rejects, the upstream body is not the JSON it should be, ...).
\<close>

type_synonym forward = "jsstring \<Rightarrow> payload \<Rightarrow> response \<Rightarrow> js_error option \<times> response"

text \<open>\<open>handler\<close> of api/marketing/generate\_dm\_list.js.\<close>

definition handler_generate_dm_list :: "jsstring option \<Rightarrow> forward \<Rightarrow> request \<Rightarrow> outcome" where
  "handler_generate_dm_list backend_url forward req =
     (let res = setCors new_response in
      if req_method req = js ''OPTIONS'' then completed (end_with Empty (res\<lparr>statusCode := 204\<rparr>))
      else if req_method req \<noteq> js ''POST''
      then completed (end_with (Text (js ''Method Not Allowed''))
                   ((setHeader (js ''Allow'') (js ''POST, OPTIONS'') res)\<lparr>statusCode := 405\<rparr>))
      else
        (case getBackendBase backend_url of
           Inl err \<Rightarrow> internal_error (js ''Proxy error (generate_dm_list):'') err res
         | Inr backendBase \<Rightarrow>
             (case req_body req of
                Inl err \<Rightarrow> internal_error (js ''Proxy error (generate_dm_list):'') err res
              | Inr csvText \<Rightarrow>
                  (case validateCsv csvText of
                     Invalid err code \<Rightarrow> completed (bad_request err code res)
                   | Valid count \<Rightarrow>
                       (case forward (backendBase @ js ''/marketing/generate_dm_list'')
                               (Text (csvToSend csvText)) res of
                          (Some err, res') \<Rightarrow>
                            internal_error (js ''Proxy error (generate_dm_list):'') err res'
                        | (None, res') \<Rightarrow> completed res')))))"

text \<open>
  \<open>handler\<close> of api/marketing/generate\_leads.js. \<open>JSON_parse\<close> is the platform's
  \<open>JSON.parse\<close>: the value, or \<open>None\<close> when it throws.
\<close>

definition handler_generate_leads ::
    "jsstring option \<Rightarrow> (jsstring \<Rightarrow> json option) \<Rightarrow> forward \<Rightarrow> request \<Rightarrow> outcome" where
  "handler_generate_leads backend_url JSON_parse forward req =
     (let res = setCors_leads new_response in
      if req_method req = js ''OPTIONS'' then completed (end_with Empty (res\<lparr>statusCode := 204\<rparr>))
      else if req_method req \<noteq> js ''POST''
      then completed (end_with (Text (js ''Method Not Allowed''))
                   ((setHeader (js ''Allow'') (js ''POST, OPTIONS'') res)\<lparr>statusCode := 405\<rparr>))
      else
        (case getBackendBase backend_url of
           Inl err \<Rightarrow> internal_error_leads (js ''Proxy error (generate_leads):'') err res
         | Inr backendBase \<Rightarrow>
             (case req_body req of
                Inl err \<Rightarrow> internal_error_leads (js ''Proxy error (generate_leads):'') err res
              | Inr text \<Rightarrow>
                  (case JSON_parse (if text \<noteq> [] then text else js ''{}'') of
                     None \<Rightarrow> completed (bad_request (js ''Invalid JSON body'') (js ''INVALID_JSON'') res)
                   | Some json \<Rightarrow>
                       (case validatePayload json of
                          Invalid err code \<Rightarrow> completed (bad_request err code res)
                        | Valid _ \<Rightarrow>
                            (case forward (backendBase @ js ''/marketing/generate_leads'') (Json json) res of
                               (Some err, res') \<Rightarrow>
                                 internal_error_leads (js ''Proxy error (generate_leads):'') err res'
                             | (None, res') \<Rightarrow> completed res'))))))"

text \<open>
  \<open>handler\<close> of api/results.js. Here the environment \<open>relay\<close> is the code from
  \<open>new URL(req.url, ...)\<close> on: it is given the backend base and the request.
\<close>

definition handler_results ::
    "jsstring option \<Rightarrow> (jsstring \<Rightarrow> request \<Rightarrow> response \<Rightarrow> js_error option \<times> response) \<Rightarrow> request \<Rightarrow> outcome" where
  "handler_results backend_url relay req =
     (let res = setCors new_response in
      if req_method req = js ''OPTIONS'' then completed (end_with Empty (res\<lparr>statusCode := 204\<rparr>))
      else if req_method req \<noteq> js ''GET''
      then completed (end_with (Text (js ''Method Not Allowed''))
                   ((setHeader (js ''Allow'') (js ''GET, OPTIONS'') res)\<lparr>statusCode := 405\<rparr>))
      else
        (case getBackendBase backend_url of
           Inl err \<Rightarrow> internal_error (js ''Proxy error (results):'') err res
         | Inr backendBase \<Rightarrow>
             (case relay backendBase req res of
                (Some err, res') \<Rightarrow> internal_error (js ''Proxy error (results):'') err res'
              | (None, res') \<Rightarrow> completed res')))"

text \<open>
  The strings of a JSON value, keys included, and whether a text occurs in what a
  response was ended with.
\<close>

primrec json_strings :: "json \<Rightarrow> jsstring list" where
  "json_strings JNull = []"
| "json_strings (JBool b) = []"
| "json_strings (JNum x) = []"
| "json_strings (JStr s) = [s]"
| "json_strings (JArr xs) = concat (map json_strings xs)"
| "json_strings (JObj kvs) = concat (map (\<lambda>kv. fst kv # snd kv) (map (map_prod id json_strings) kvs))"

definition body_mentions :: "jsstring \<Rightarrow> response \<Rightarrow> bool" where
  "body_mentions m res =
     (case ended res of
        None \<Rightarrow> False
      | Some Empty \<Rightarrow> False
      | Some (Text t) \<Rightarrow> sublist m t
      | Some (Json j) \<Rightarrow> list_ex (sublist m) (json_strings j))"

text \<open>
  Examples: the generic body of a 500 answer; an upstream that cannot be reached
  (\<open>fetch\<close> rejects); an upstream stub that answers with the body it was sent; a
  pre-flight request, a CSV submission and a leads submission; what
  \<open>JSON.parse\<close> gives for the body of the latter; and two requests to the result
  endpoint, one with its method and one with another.
\<close>

definition generic_body :: payload where
  "generic_body = Json (JObj [(js ''error'', JStr (js ''Internal Server Error''))])"

definition no_upstream :: forward where
  "no_upstream url body res =
     (Some \<lparr>err_name = js ''TypeError'', err_message = js ''fetch failed'', err_status = None\<rparr>, res)"

definition echo_upstream :: forward where
  "echo_upstream url body res = (None, end_with body (res\<lparr>statusCode := 202\<rparr>))"

definition preflight :: request where
  "preflight = \<lparr>req_method = js ''OPTIONS'', req_url = js ''/api/marketing/generate_dm_list'', req_body = Inr []\<rparr>"

definition post_csv :: request where
  "post_csv = \<lparr>req_method = js ''POST'', req_url = js ''/api/marketing/generate_dm_list'',
               req_body = Inr (js ''userName,userLink\<newline>alice,https://x/alice'')\<rparr>"

definition post_leads :: request where
  \<open>post_leads = \<lparr>req_method = js ''POST'', req_url = js ''/api/marketing/generate_leads'',
                 req_body = Inr (js ''{"seedUserNames":["alice"],"filters":null}'')\<rparr>\<close>

definition parse_example :: "jsstring \<Rightarrow> json option" where
  \<open>parse_example s =
     (if s = js ''{"seedUserNames":["alice"],"filters":null}'' then Some leads_with_null_filters else None)\<close>

definition get_result :: request where
  "get_result = \<lparr>req_method = js ''GET'', req_url = js ''/api/results?token=abc'', req_body = Inr []\<rparr>"

definition delete_result :: request where
  "delete_result = \<lparr>req_method = js ''DELETE'', req_url = js ''/api/results?token=abc'', req_body = Inr []\<rparr>"

definition no_upstream_relay :: "jsstring \<Rightarrow> request \<Rightarrow> response \<Rightarrow> js_error option \<times> response" where
  "no_upstream_relay base req res =
     (Some \<lparr>err_name = js ''TypeError'', err_message = js ''fetch failed'', err_status = None\<rparr>, res)"

section \<open>Facts about strings and lines\<close>

lemma trim_Nil_iff: "trim s = [] \<longleftrightarrow> list_all is_space s"
proof
  assume "trim s = []"
  then have "dropWhile is_space (rev (dropWhile is_space s)) = []"
    by (simp add: trim_def)
  then have all: "\<forall>c \<in> set (dropWhile is_space s). is_space c"
    by simp
  have "dropWhile is_space s = []"
  proof (cases "dropWhile is_space s")
    case Nil then show ?thesis .
  next
    case (Cons c cs)
    then have "\<not> is_space c" using hd_dropWhile [of is_space s] by simp
    moreover have "is_space c" using all Cons by simp
    ultimately show ?thesis by simp
  qed
  then show "list_all is_space s"
    by (simp add: list_all_iff)
next
  assume "list_all is_space s"
  then have "dropWhile is_space s = []"
    using dropWhile_eq_Nil_conv [of is_space s] by (auto simp: list_all_iff)
  then show "trim s = []" by (simp only: trim_def rev.simps dropWhile.simps)
qed

lemma js_comma: "js '','' = [comma]"
  by (simp add: js_def comma_def)

lemma js_newline: "js ''\<newline>'' = [LF]"
  by (simp add: js_def LF_def)

lemma not_space_comma: "\<not> is_space comma"
  by (simp add: is_space_def comma_def)

lemma is_space_CR: "is_space CR"
  by (simp add: is_space_def CR_def)

lemma split_lines_not_Nil: "split_lines s \<noteq> []"
  by (induction s rule: split_lines.induct) (auto split: list.splits)

lemma split_lines_no_LF: "l \<in> set (split_lines s) \<Longrightarrow> LF \<notin> set l"
proof (induction s arbitrary: l rule: split_lines.induct)
  case 1
  then show ?case by simp
next
  case (2 c cs)
  show ?case
  proof (cases "c = LF")
    case True
    with 2 show ?thesis by auto
  next
    case nlf: False
    show ?thesis
    proof (cases "c = CR \<and> cs \<noteq> [] \<and> hd cs = LF")
      case True
      with 2 nlf show ?thesis by auto
    next
      case False
      obtain x xs where sp: "split_lines cs = x # xs"
        using split_lines_not_Nil [of cs] by (cases "split_lines cs") auto
      from "2.prems" nlf False sp have "l = c # x \<or> l \<in> set xs" by auto
      then show ?thesis
      proof
        assume "l = c # x"
        moreover have "LF \<notin> set x" using "2.IH"(3) [of x] nlf False sp by simp
        ultimately show ?thesis using nlf by auto
      next
        assume "l \<in> set xs"
        then show ?thesis using "2.IH"(3) [of l] nlf False sp by simp
      qed
    qed
  qed
qed

lemma split_LF_no_LF: "LF \<notin> set l \<Longrightarrow> split_LF l = [l]"
  by (induction l) auto

lemma split_LF_append: "LF \<notin> set l \<Longrightarrow> split_LF (l @ LF # r) = l # split_LF r"
  by (induction l) auto

lemma split_LF_join:
  "ls \<noteq> [] \<Longrightarrow> list_all (\<lambda>l. LF \<notin> set l) ls \<Longrightarrow> split_LF (join ls [LF]) = ls"
proof (induction ls "[LF]" rule: join.induct)
  case 1 then show ?case by simp
next
  case (2 l) then show ?case by (simp add: split_LF_no_LF)
next
  case (3 l v va)
  then show ?case by (simp add: split_LF_append)
qed

lemma split_lines_single: "LF \<notin> set l \<Longrightarrow> split_lines l = [l]"
proof (induction l)
  case Nil then show ?case by simp
next
  case (Cons c cs)
  then have "\<not> (cs \<noteq> [] \<and> hd cs = LF)" by (cases cs) auto
  with Cons show ?case by auto
qed

lemma split_lines_append_LF:
  "LF \<notin> set l \<Longrightarrow> split_lines (l @ LF # r) = chop_CR l # split_lines r"
proof (induction l)
  case Nil then show ?case by (simp add: chop_CR_def)
next
  case (Cons c cs)
  then have c: "c \<noteq> LF" and cs: "LF \<notin> set cs" by auto
  show ?case
  proof (cases "cs = []")
    case True
    then show ?thesis using c by (auto simp: chop_CR_def)
  next
    case False
    then have "hd (cs @ LF # r) \<noteq> LF" using cs by (cases cs) auto
    then show ?thesis using Cons.IH [OF cs] c False by (auto simp: chop_CR_def)
  qed
qed

lemma split_lines_join:
  "ls \<noteq> [] \<Longrightarrow> list_all (\<lambda>l. LF \<notin> set l) ls \<Longrightarrow>
     split_lines (join ls [LF]) = map chop_CR (butlast ls) @ [last ls]"
proof (induction ls "[LF]" rule: join.induct)
  case 1 then show ?case by simp
next
  case (2 l) then show ?case by (simp add: split_lines_single)
next
  case (3 l v va)
  then show ?case by (simp add: split_lines_append_LF)
qed

lemma blank_chop_CR: "blank (chop_CR l) = blank l"
proof (cases "l \<noteq> [] \<and> last l = CR")
  case True
  then have "l = butlast l @ [CR]" by (metis append_butlast_last_id)
  then have "list_all is_space l = list_all is_space (butlast l @ [CR])"
    by simp
  then have "list_all is_space l = list_all is_space (butlast l)"
    using is_space_CR by simp
  then show ?thesis using True by (simp add: blank_def trim_Nil_iff chop_CR_def)
next
  case False
  then show ?thesis by (auto simp: chop_CR_def)
qed

lemma count_split_lines_join:
  assumes "ls \<noteq> []" and "list_all (\<lambda>l. LF \<notin> set l) ls"
  shows "length (filter (\<lambda>l. \<not> blank l) (split_lines (join ls [LF]))) = length (filter (\<lambda>l. \<not> blank l) ls)"
    and "length (split_lines (join ls [LF])) = length ls"
proof -
  have sp: "split_lines (join ls [LF]) = map chop_CR (butlast ls) @ [last ls]"
    using assms by (rule split_lines_join)
  have "filter (\<lambda>l. \<not> blank l) (map chop_CR (butlast ls)) = map chop_CR (filter (\<lambda>l. \<not> blank l) (butlast ls))"
    by (simp add: filter_map comp_def blank_chop_CR)
  then have "length (filter (\<lambda>l. \<not> blank l) (map chop_CR (butlast ls) @ [last ls]))
               = length (filter (\<lambda>l. \<not> blank l) (butlast ls @ [last ls]))"
    by simp
  then show "length (filter (\<lambda>l. \<not> blank l) (split_lines (join ls [LF]))) = length (filter (\<lambda>l. \<not> blank l) ls)"
    using sp assms(1) by simp
  show "length (split_lines (join ls [LF])) = length ls"
    using sp assms(1) by simp
qed

section \<open>The CSV validator: row bounds\<close>

lemma decimal_300: "decimal 300 = js ''300''"
  by (simp add: decimal.simps [of 300] decimal.simps [of 30] decimal.simps [of 3] digit_def js_def)

lemma validateCsv_accepted_header:
  assumes "header_of csvText = js ''userName,userLink,directMessage'' \<or> header_of csvText = js ''userName,userLink''"
  shows "validateCsv csvText =
           (if data_rows csvText = 0 then Invalid (js ''No rows found after header.'') (js ''EMPTY_ROWS'')
            else if data_rows csvText \<le> 300 then Valid (data_rows csvText)
            else Invalid (js ''Too many rows: '' @ decimal (data_rows csvText) @ js ''. Maximum allowed is 300.'')
                         (js ''TOO_MANY_ROWS''))"
proof -
  have mem: "List.member ALLOWED_HEADERS (header_of csvText)"
    using assms by (auto simp: ALLOWED_HEADERS_def)
  show ?thesis
    using mem
    by (simp add: validateCsv_def Let_def header_of_def data_rows_def blank_def MAX_TARGETS_def
          decimal_300 js_def)
qed

lemma validateCsv_Valid_count:
  "validateCsv csvText = Valid n \<Longrightarrow> n = data_rows csvText"
  by (auto simp: validateCsv_def Let_def data_rows_def blank_def split: if_splits)

lemma allowed_header_facts:
  assumes "h \<in> set ALLOWED_HEADERS"
  shows "LF \<notin> set h" and "chop_CR h = h" and "trim h = h" and "strip_bom (h @ r) = h @ r"
  using assms
  by (auto simp: ALLOWED_HEADERS_def js_def LF_def chop_CR_def CR_def trim_def is_space_def strip_bom_def)

lemma csv_reading:
  assumes free: "list_all (\<lambda>l. LF \<notin> set l) rows" and h: "h \<in> set ALLOWED_HEADERS"
  shows "source_lines (join (h # rows) [LF]) = h # (if rows = [] then [] else split_lines (join rows [LF]))"
proof (cases rows)
  case Nil
  then show ?thesis
    using allowed_header_facts(4) [OF h, of "[]"] allowed_header_facts(1) [OF h]
    by (simp add: source_lines_def split_lines_single)
next
  case (Cons r rs)
  have "join (h # rows) [LF] = h @ LF # join rows [LF]"
    using Cons by simp
  then show ?thesis
    using Cons allowed_header_facts(4) [OF h, of "LF # join rows [LF]"] allowed_header_facts(1,2) [OF h]
    by (simp add: source_lines_def split_lines_append_LF)
qed

lemma csv_of_rows:
  assumes free: "list_all (\<lambda>l. LF \<notin> set l) rows" and h: "h \<in> set ALLOWED_HEADERS"
  shows "header_of (join (h # rows) [LF]) = h"
    and "data_rows (join (h # rows) [LF]) = length (filter (\<lambda>l. \<not> blank l) rows)"
proof -
  note rd = csv_reading [OF free h]
  show "header_of (join (h # rows) [LF]) = h"
    using rd allowed_header_facts(3) [OF h]
    by (simp add: header_of_def source_lines_def first_line_def)
  show "data_rows (join (h # rows) [LF]) = length (filter (\<lambda>l. \<not> blank l) rows)"
  proof (cases "rows = []")
    case True
    then show ?thesis using rd by (simp add: data_rows_def source_lines_def)
  next
    case False
    then show ?thesis
      using rd count_split_lines_join(1) [OF False free]
      by (simp add: data_rows_def source_lines_def)
  qed
qed

lemma csv_with_rows_facts:
  "header_of (csv_with_rows n) = js ''userName,userLink,directMessage''"
  "data_rows (csv_with_rows n) = n"
proof -
  have free: "list_all (\<lambda>l. LF \<notin> set l) (replicate n (js ''alice,https://x/alice,Hi''))"
    by (simp add: list_all_iff js_def LF_def)
  have h: "js ''userName,userLink,directMessage'' \<in> set ALLOWED_HEADERS"
    by (simp add: ALLOWED_HEADERS_def)
  have nb: "\<not> blank (js ''alice,https://x/alice,Hi'')"
    by (simp add: blank_def trim_def is_space_def js_def)
  show "header_of (csv_with_rows n) = js ''userName,userLink,directMessage''"
    unfolding csv_with_rows_def by (rule csv_of_rows(1) [OF free h])
  show "data_rows (csv_with_rows n) = n"
    unfolding csv_with_rows_def using csv_of_rows(2) [OF free h] nb by simp
qed

lemma decimal_301: "decimal 301 = js ''301''"
  by (simp add: decimal.simps [of 301] decimal.simps [of 30] decimal.simps [of 3] digit_def js_def)

text \<open>
  Claim C6. A CSV whose first line, after the byte-order mark is stripped and the line
  is trimmed, is one of the two accepted headers, and that has \<open>n\<close> non-blank lines
  after it: with \<open>n = 0\<close> it is rejected with code \<open>EMPTY_ROWS\<close>, with
  \<open>1 \<le> n \<le> 300\<close> it is accepted (and the count returned is \<open>n\<close>), with
  \<open>n > 300\<close>, so with \<open>n = 301\<close>, it is rejected with code \<open>TOO_MANY_ROWS\<close>.
\<close>

theorem validateCsv_row_bounds:
  assumes "header_of csvText = js ''userName,userLink,directMessage'' \<or> header_of csvText = js ''userName,userLink''"
      and "data_rows csvText = n"
  shows "validateCsv csvText =
           (if n = 0 then Invalid (js ''No rows found after header.'') (js ''EMPTY_ROWS'')
            else if n \<le> 300 then Valid n
            else Invalid (js ''Too many rows: '' @ decimal n @ js ''. Maximum allowed is 300.'')
                         (js ''TOO_MANY_ROWS''))"
  using validateCsv_accepted_header [OF assms(1)] assms(2) by simp

theorem validateCsv_row_bounds_witness:
  "validateCsv (csv_with_rows 0) = Invalid (js ''No rows found after header.'') (js ''EMPTY_ROWS'')
   \<and> validateCsv (csv_with_rows 1) = Valid 1
   \<and> validateCsv (csv_with_rows 300) = Valid 300
   \<and> validateCsv (csv_with_rows 301)
        = Invalid (js ''Too many rows: 301. Maximum allowed is 300.'') (js ''TOO_MANY_ROWS'')
   \<and> header_of (js ''userName,userLink\<newline>alice,https://x/alice'') = js ''userName,userLink''
   \<and> data_rows (js ''userName,userLink\<newline>alice,https://x/alice'') = 1
   \<and> validateCsv (js ''userName,userLink\<newline>alice,https://x/alice'') = Valid 1"
proof -
  have h: "header_of (js ''userName,userLink\<newline>alice,https://x/alice'') = js ''userName,userLink''"
    by code_simp
  have n: "data_rows (js ''userName,userLink\<newline>alice,https://x/alice'') = 1"
    by code_simp
  have a: "validateCsv (js ''userName,userLink\<newline>alice,https://x/alice'') = Valid 1"
    using validateCsv_row_bounds [of "js ''userName,userLink\<newline>alice,https://x/alice''" 1] h n
    by simp
  have r0: "validateCsv (csv_with_rows 0) = Invalid (js ''No rows found after header.'') (js ''EMPTY_ROWS'')"
    using validateCsv_row_bounds [of "csv_with_rows 0" 0] csv_with_rows_facts [of 0] by simp
  have r1: "validateCsv (csv_with_rows 1) = Valid 1"
    using validateCsv_row_bounds [of "csv_with_rows 1" 1] csv_with_rows_facts [of 1] by simp
  have r300: "validateCsv (csv_with_rows 300) = Valid 300"
    using validateCsv_row_bounds [of "csv_with_rows 300" 300] csv_with_rows_facts [of 300] by simp
  have r301: "validateCsv (csv_with_rows 301)
        = Invalid (js ''Too many rows: 301. Maximum allowed is 300.'') (js ''TOO_MANY_ROWS'')"
    using validateCsv_row_bounds [of "csv_with_rows 301" 301] csv_with_rows_facts [of 301] decimal_301
    by (simp add: js_def)
  show ?thesis using r0 r1 r300 r301 h n a by (intro conjI)
qed

text \<open>The submission of the specification's scenario: one row under the canonical header, forwarded as it came.\<close>

lemma scenario_csv:
  "validateCsv (js ''userName,userLink,directMessage\<newline>alice,https://x/alice,Hi'') = Valid 1"
  "csvToSend (js ''userName,userLink,directMessage\<newline>alice,https://x/alice,Hi'')
     = js ''userName,userLink,directMessage\<newline>alice,https://x/alice,Hi''"
  by code_simp+

section \<open>The header expansion\<close>

lemma blank_expand_row: "blank (expand_row l) = blank l"
  by (auto simp: expand_row_def blank_def trim_Nil_iff js_comma not_space_comma)

lemma expand_row_no_LF: "LF \<notin> set l \<Longrightarrow> LF \<notin> set (expand_row l)"
  by (auto simp: expand_row_def js_comma comma_def LF_def)

lemma expand_row_blank: "blank l \<Longrightarrow> expand_row l = l"
  by (simp add: expand_row_def blank_def)

lemma expand_row_nonblank:
  "\<not> blank l \<Longrightarrow> endsWith (expand_row l) (js '','') \<and> (expand_row l = l \<or> expand_row l = l @ js '','')"
  by (auto simp: expand_row_def blank_def endsWith_def trim_def suffix_def)

lemma header3_no_LF: "LF \<notin> set (js ''userName,userLink,directMessage'')"
  by (simp add: js_def LF_def)

lemma header3_chop: "chop_CR (js ''userName,userLink,directMessage'') = js ''userName,userLink,directMessage''"
  by (simp add: js_def chop_CR_def CR_def)

lemma header3_trim: "trim (js ''userName,userLink,directMessage'') = js ''userName,userLink,directMessage''"
  by (simp add: js_def trim_def is_space_def)

lemma strip_bom_header3: "strip_bom (js ''userName,userLink,directMessage'' @ r) = js ''userName,userLink,directMessage'' @ r"
  by (simp add: js_def strip_bom_def)

lemma join_Cons: "join (l # ls) sep = l @ (if ls = [] then [] else sep @ join ls sep)"
  by (cases ls) simp_all

lemma forwarded_reading:
  assumes free: "list_all (\<lambda>l. LF \<notin> set l) rows"
  shows "split_lines (strip_bom (join (js ''userName,userLink,directMessage'' # rows) [LF]))
           = js ''userName,userLink,directMessage'' # (if rows = [] then [] else split_lines (join rows [LF]))"
proof (cases rows)
  case Nil
  then show ?thesis
    using strip_bom_header3 [of "[]"] by (simp add: split_lines_single header3_no_LF)
next
  case (Cons r rs)
  have "join (js ''userName,userLink,directMessage'' # rows) [LF]
          = js ''userName,userLink,directMessage'' @ LF # join rows [LF]"
    using Cons by simp
  then show ?thesis
    using Cons strip_bom_header3 [of "LF # join rows [LF]"]
    by (simp add: split_lines_append_LF header3_no_LF header3_chop)
qed

lemma csvToSend_join:
  assumes "header_of csvText = js ''userName,userLink''"
  shows "csvToSend csvText =
           join (js ''userName,userLink,directMessage'' # map expand_row (drop 1 (source_lines csvText))) [LF]"
  using assms by (simp add: csvToSend_def header_of_def source_lines_def Let_def js_newline)

lemma rows_no_LF: "list_all (\<lambda>l. LF \<notin> set l) (map expand_row (drop 1 (source_lines csvText)))"
  using split_lines_no_LF [of _ "strip_bom csvText"]
  by (auto simp: list_all_iff source_lines_def expand_row_no_LF dest: in_set_dropD)

lemma forwarded_lines_eq:
  assumes "header_of csvText = js ''userName,userLink''"
  shows "forwarded_lines csvText =
           js ''userName,userLink,directMessage'' # map expand_row (drop 1 (source_lines csvText))"
proof -
  have "list_all (\<lambda>l. LF \<notin> set l)
          (js ''userName,userLink,directMessage'' # map expand_row (drop 1 (source_lines csvText)))"
    using rows_no_LF [of csvText] header3_no_LF by simp
  then have "split_LF (join (js ''userName,userLink,directMessage'' # map expand_row (drop 1 (source_lines csvText))) [LF])
               = js ''userName,userLink,directMessage'' # map expand_row (drop 1 (source_lines csvText))"
    by (intro split_LF_join) simp_all
  then show ?thesis
    using csvToSend_join [OF assms] by (simp add: forwarded_lines_def)
qed

lemma count_expand_rows:
  "length (filter (\<lambda>l. \<not> blank l) (map expand_row rows)) = length (filter (\<lambda>l. \<not> blank l) rows)"
proof -
  have "filter (\<lambda>l. \<not> blank l) (map expand_row rows) = map expand_row (filter (\<lambda>l. \<not> blank l) rows)"
    by (simp add: filter_map comp_def blank_expand_row)
  then show ?thesis by simp
qed

lemma forwarded_validates:
  assumes h2: "header_of csvText = js ''userName,userLink''"
  shows "header_of (csvToSend csvText) = js ''userName,userLink,directMessage''"
    and "data_rows (csvToSend csvText) = data_rows csvText"
    and "length (source_lines (csvToSend csvText)) = length (source_lines csvText)"
proof -
  let ?rows = "map expand_row (drop 1 (source_lines csvText))"
  have rd: "source_lines (csvToSend csvText)
              = js ''userName,userLink,directMessage'' # (if ?rows = [] then [] else split_lines (join ?rows [LF]))"
    using forwarded_reading [OF rows_no_LF [of csvText]] csvToSend_join [OF h2]
    by (simp add: source_lines_def)
  show "header_of (csvToSend csvText) = js ''userName,userLink,directMessage''"
    using rd by (simp add: header_of_def source_lines_def first_line_def header3_trim)
  have src: "source_lines csvText \<noteq> []"
    by (simp add: source_lines_def split_lines_not_Nil)
  show "data_rows (csvToSend csvText) = data_rows csvText"
  proof (cases "?rows = []")
    case True
    then have "drop 1 (source_lines csvText) = []" by simp
    then show ?thesis using rd True by (simp add: data_rows_def source_lines_def)
  next
    case False
    have "data_rows (csvToSend csvText) = length (filter (\<lambda>l. \<not> blank l) (split_lines (join ?rows [LF])))"
      using rd False by (simp add: data_rows_def source_lines_def)
    also have "\<dots> = length (filter (\<lambda>l. \<not> blank l) ?rows)"
      using count_split_lines_join(1) [OF False rows_no_LF [of csvText]] .
    also have "\<dots> = length (filter (\<lambda>l. \<not> blank l) (drop 1 (source_lines csvText)))"
      by (rule count_expand_rows)
    also have "\<dots> = data_rows csvText"
      by (simp add: data_rows_def source_lines_def)
    finally show ?thesis .
  qed
  show "length (source_lines (csvToSend csvText)) = length (source_lines csvText)"
  proof (cases "?rows = []")
    case True
    then have "drop 1 (source_lines csvText) = []" by simp
    then have "length (source_lines csvText) = 1" using src by (cases "source_lines csvText") auto
    then show ?thesis using rd True by simp
  next
    case False
    have "length (split_lines (join ?rows [LF])) = length ?rows"
      using count_split_lines_join(2) [OF False rows_no_LF [of csvText]] .
    then show ?thesis using rd False src by (cases "source_lines csvText") auto
  qed
qed

text \<open>
  Claim C5. For a CSV that the validator accepts under the two-column header
  \<open>userName,userLink\<close>: the forwarded body has as many lines as the body that came
  in; its first line is the three-column header \<open>userName,userLink,directMessage\<close>;
  every blank line after the header is forwarded as it is; every non-blank line after
  the header is forwarded as it is or with one comma appended, and ends with a comma
  either way; and the number of non-blank data rows is the same \<open>n\<close> before and
  after. The last two conjuncts say the same of the forwarded body as the validator
  itself reads it: it has the same number of lines and is accepted with the same count.
\<close>

theorem csvToSend_two_column:
  assumes ok: "validateCsv csvText = Valid n"
      and h2: "header_of csvText = js ''userName,userLink''"
  shows "length (forwarded_lines csvText) = length (source_lines csvText)
       \<and> first_line (forwarded_lines csvText) = js ''userName,userLink,directMessage''
       \<and> (\<forall>i. 0 < i \<and> i < length (source_lines csvText) \<longrightarrow>
             (if blank (source_lines csvText ! i)
              then forwarded_lines csvText ! i = source_lines csvText ! i
              else endsWith (forwarded_lines csvText ! i) (js '','')
                 \<and> \<not> blank (forwarded_lines csvText ! i)
                 \<and> (forwarded_lines csvText ! i = source_lines csvText ! i
                      \<or> forwarded_lines csvText ! i = source_lines csvText ! i @ js '','')))
       \<and> length (filter (\<lambda>l. \<not> blank l) (drop 1 (forwarded_lines csvText))) = n
       \<and> data_rows csvText = n
       \<and> length (source_lines (csvToSend csvText)) = length (source_lines csvText)
       \<and> validateCsv (csvToSend csvText) = Valid n"
proof -
  obtain h rest where ls: "source_lines csvText = h # rest"
    using split_lines_not_Nil [of "strip_bom csvText"] by (cases "source_lines csvText") (auto simp: source_lines_def)
  have out: "forwarded_lines csvText = js ''userName,userLink,directMessage'' # map expand_row rest"
    using forwarded_lines_eq [OF h2] ls by simp
  have len: "length (forwarded_lines csvText) = length (source_lines csvText)"
    using out ls by simp
  have hd: "first_line (forwarded_lines csvText) = js ''userName,userLink,directMessage''"
    using out by (simp add: first_line_def)
  have rows: "\<forall>i. 0 < i \<and> i < length (source_lines csvText) \<longrightarrow>
             (if blank (source_lines csvText ! i)
              then forwarded_lines csvText ! i = source_lines csvText ! i
              else endsWith (forwarded_lines csvText ! i) (js '','')
                 \<and> \<not> blank (forwarded_lines csvText ! i)
                 \<and> (forwarded_lines csvText ! i = source_lines csvText ! i
                      \<or> forwarded_lines csvText ! i = source_lines csvText ! i @ js '',''))"
  proof (intro allI impI)
    fix i assume i: "0 < i \<and> i < length (source_lines csvText)"
    then obtain j where j: "i = Suc j" "j < length rest"
      using ls by (cases i) auto
    have eqs: "source_lines csvText ! i = rest ! j" "forwarded_lines csvText ! i = expand_row (rest ! j)"
      using j ls out by simp_all
    show "if blank (source_lines csvText ! i)
              then forwarded_lines csvText ! i = source_lines csvText ! i
              else endsWith (forwarded_lines csvText ! i) (js '','')
                 \<and> \<not> blank (forwarded_lines csvText ! i)
                 \<and> (forwarded_lines csvText ! i = source_lines csvText ! i
                      \<or> forwarded_lines csvText ! i = source_lines csvText ! i @ js '','')"
      unfolding eqs
      using expand_row_blank [of "rest ! j"] expand_row_nonblank [of "rest ! j"]
        blank_expand_row [of "rest ! j"] by simp
  qed
  have n: "data_rows csvText = n"
    using validateCsv_Valid_count [OF ok] by simp
  have cnt: "length (filter (\<lambda>l. \<not> blank l) (drop 1 (forwarded_lines csvText))) = n"
    using n out ls count_expand_rows [of rest] by (simp add: data_rows_def source_lines_def)
  have len2: "length (source_lines (csvToSend csvText)) = length (source_lines csvText)"
    using forwarded_validates(3) [OF h2] .
  have "0 < n \<and> n \<le> 300"
    using ok n validateCsv_accepted_header [of csvText] h2 by (auto split: if_splits)
  then have val: "validateCsv (csvToSend csvText) = Valid n"
    using validateCsv_accepted_header [of "csvToSend csvText"]
      forwarded_validates(1) [OF h2] forwarded_validates(2) [OF h2] n by simp
  show ?thesis
    using len hd rows cnt n len2 val by blast
qed

theorem csvToSend_two_column_witness:
  "validateCsv (js ''userName,userLink\<newline>alice,https://x/alice\<newline>\<newline>bob,'') = Valid 2
   \<and> header_of (js ''userName,userLink\<newline>alice,https://x/alice\<newline>\<newline>bob,'') = js ''userName,userLink''
   \<and> csvToSend (js ''userName,userLink\<newline>alice,https://x/alice\<newline>\<newline>bob,'')
       = js ''userName,userLink,directMessage\<newline>alice,https://x/alice,\<newline>\<newline>bob,''
   \<and> first_line (forwarded_lines (js ''userName,userLink\<newline>alice,https://x/alice\<newline>\<newline>bob,''))
       = js ''userName,userLink,directMessage''
   \<and> validateCsv (csvToSend (js ''userName,userLink\<newline>alice,https://x/alice\<newline>\<newline>bob,'')) = Valid 2"
proof -
  have ok: "validateCsv (js ''userName,userLink\<newline>alice,https://x/alice\<newline>\<newline>bob,'') = Valid 2"
    by code_simp
  have h2: "header_of (js ''userName,userLink\<newline>alice,https://x/alice\<newline>\<newline>bob,'') = js ''userName,userLink''"
    by code_simp
  have out: "csvToSend (js ''userName,userLink\<newline>alice,https://x/alice\<newline>\<newline>bob,'')
       = js ''userName,userLink,directMessage\<newline>alice,https://x/alice,\<newline>\<newline>bob,''"
    by code_simp
  note t = csvToSend_two_column [OF ok h2]
  from t have a: "first_line (forwarded_lines (js ''userName,userLink\<newline>alice,https://x/alice\<newline>\<newline>bob,''))
       = js ''userName,userLink,directMessage''"
    by (elim conjE)
  from t have b: "validateCsv (csvToSend (js ''userName,userLink\<newline>alice,https://x/alice\<newline>\<newline>bob,'')) = Valid 2"
    by (elim conjE)
  show ?thesis
    using ok h2 out a b by (intro conjI)
qed

section \<open>The backoff sequence\<close>

text \<open>
  Claim C2 says that the first six delays of the generator with its default parameters
  are 2000, 2000, 3000, 5000, 8000, 13000, as the comment above the generator, the
  README and the implementation plan do. The generator yields \<open>min(b, capMs)\<close>
  and then advances, so the value 2000 comes once: what the code yields first is
  2000, 3000, 5000, 8000, 13000, 15000.
\<close>

theorem backoff_first_six:
  "take 6 (delays (backoffIterator 60 15000)) = [2000, 3000, 5000, 8000, 13000, 15000]"
  by (simp add: delays.simps gen_next_def backoffIterator_def)

lemma backoff_length: "length (delays (backoffIterator 60 15000)) = 60"
  by (simp add: delays.simps gen_next_def backoffIterator_def)

lemma delays_capped_aux:
  "gen_maxAttempts g - gen_attempt g = n \<Longrightarrow> list_all (\<lambda>d. d \<le> gen_capMs g) (delays g)"
proof (induction n arbitrary: g)
  case 0
  then show ?case by (subst delays.simps) (simp add: gen_next_def)
next
  case (Suc n)
  let ?g' = "g\<lparr>gen_a := gen_b g, gen_b := gen_a g + gen_b g, gen_attempt := gen_attempt g + 1\<rparr>"
  have lt: "gen_attempt g < gen_maxAttempts g" using Suc.prems by simp
  have "gen_maxAttempts ?g' - gen_attempt ?g' = n" using Suc.prems by simp
  then have "list_all (\<lambda>d. d \<le> gen_capMs ?g') (delays ?g')" by (rule Suc.IH)
  then show ?case
    using lt by (subst delays.simps) (simp add: gen_next_def)
qed

lemma delays_capped: "list_all (\<lambda>d. d \<le> gen_capMs g) (delays g)"
  by (rule delays_capped_aux [OF refl])

section \<open>Polling sessions\<close>

lemma fetches_tick [simp]: "fetches (tick s a st m) = 0"
  by (simp add: fetches_def tick_def is_Fetch_def)

lemma fetches_append [simp]: "fetches (xs @ ys) = fetches xs + fetches ys"
  by (simp add: fetches_def)

lemma fetches_Cons [simp]: "fetches (e # xs) = (if is_Fetch e then 1 else 0) + fetches xs"
  by (simp add: fetches_def)

lemma fetches_Nil [simp]: "fetches [] = 0"
  by (simp add: fetches_def)

lemma Download_notin_tick [simp]: "Download \<notin> set (tick s a st m)"
  by (simp add: tick_def)

text \<open>What one iteration that falls through to its wait does before the wait.\<close>

lemma try_catch_retried:
  assumes "retried (fetch_result s a)"
  shows "\<exists>evs. fetches evs = 1 \<and> Download \<notin> set evs \<and> list_all (\<lambda>e. \<not> is_Wait e) evs \<and> hd evs = Fetch a \<and> evs \<noteq> [] \<and>
           ((try_block s a = (evs, Inr False)) \<or>
            (\<exists>e evs1 evs2. try_block s a = (evs1, Inl e) \<and> catch_block s a e = (evs2, None) \<and> evs = evs1 @ evs2))"
proof (cases "fetch_result s a")
  case (Rejected name msg)
  then have n: "name \<noteq> js ''AbortError''" using assms by (simp add: retried_def)
  show ?thesis
    using Rejected n
    by (auto simp: try_block_def catch_block_def is_Fetch_def is_Wait_def tick_def)
next
  case (Response st body)
  then have st: "st \<noteq> 200" using assms by (simp add: retried_def)
  have ne: "js ''Error'' \<noteq> js ''AbortError''" by (simp add: js_def)
  show ?thesis
    using Response st ne
    by (auto simp: try_block_def catch_block_def is_Fetch_def is_Wait_def tick_def Error_with_status_def Let_def)
qed

lemma gen_next_Some:
  "gen_attempt it < gen_maxAttempts it \<Longrightarrow>
     \<exists>d it'. gen_next it = (Some d, it') \<and> gen_attempt it' = gen_attempt it + 1
              \<and> gen_maxAttempts it' = gen_maxAttempts it"
  by (simp add: gen_next_def)

lemma poll_loop_step:
  assumes p: "proceeds s a" and g: "gen_attempt it < gen_maxAttempts it"
  shows "\<exists>it' ext. poll_loop s it a tr = poll_loop s it' (a + 1) (tr @ ext)
           \<and> gen_attempt it' = gen_attempt it + 1 \<and> gen_maxAttempts it' = gen_maxAttempts it
           \<and> fetches ext = 1 \<and> Download \<notin> set ext \<and> (\<forall>d. WaitAborted d \<notin> set ext)"
proof -
  from p have ne: "\<not> entry_aborted s a" and r: "retried (fetch_result s a)" and nw: "\<not> wait_aborted s a"
    by (simp_all add: proceeds_def)
  obtain d it' where gn: "gen_next it = (Some d, it')" and ga: "gen_attempt it' = gen_attempt it + 1"
      and gm: "gen_maxAttempts it' = gen_maxAttempts it"
    using gen_next_Some [OF g] by blast
  obtain evs where f1: "fetches evs = 1" and nd: "Download \<notin> set evs" and nowait: "list_all (\<lambda>e. \<not> is_Wait e) evs"
      and tc: "(try_block s a = (evs, Inr False)) \<or>
            (\<exists>e evs1 evs2. try_block s a = (evs1, Inl e) \<and> catch_block s a e = (evs2, None) \<and> evs = evs1 @ evs2)"
    using try_catch_retried [OF r] by blast
  have nwa: "\<forall>d'. WaitAborted d' \<notin> set evs"
    using nowait by (auto simp: list_all_iff is_Wait_def)
  have "poll_loop s it a tr = poll_loop s it' (a + 1) (tr @ evs @ [Wait d])"
    using tc
  proof
    assume "try_block s a = (evs, Inr False)"
    then show ?thesis using ne nw gn by (subst poll_loop.simps) simp
  next
    assume "\<exists>e evs1 evs2. try_block s a = (evs1, Inl e) \<and> catch_block s a e = (evs2, None) \<and> evs = evs1 @ evs2"
    then obtain e evs1 evs2 where "try_block s a = (evs1, Inl e)" "catch_block s a e = (evs2, None)" "evs = evs1 @ evs2"
      by blast
    then show ?thesis using ne nw gn by (subst poll_loop.simps) simp
  qed
  moreover have "fetches (evs @ [Wait d]) = 1" using f1 by (simp add: is_Fetch_def)
  moreover have "Download \<notin> set (evs @ [Wait d])" using nd by simp
  moreover have "\<forall>d'. WaitAborted d' \<notin> set (evs @ [Wait d])" using nwa by simp
  ultimately show ?thesis using ga gm by blast
qed

lemma poll_loop_run:
  assumes "\<forall>i<k. proceeds s (a + i)" and "gen_attempt it + k \<le> gen_maxAttempts it"
  shows "\<exists>it' ext. poll_loop s it a tr = poll_loop s it' (a + k) (tr @ ext)
           \<and> gen_attempt it' = gen_attempt it + k \<and> gen_maxAttempts it' = gen_maxAttempts it
           \<and> fetches ext = k \<and> Download \<notin> set ext \<and> (\<forall>d. WaitAborted d \<notin> set ext)"
  using assms
proof (induction k arbitrary: it a tr)
  case 0
  have "poll_loop s it a tr = poll_loop s it (a + 0) (tr @ [])" by simp
  then show ?case by (intro exI [of _ it] exI [of _ "[]"]) simp
next
  case (Suc k)
  have p0: "proceeds s a" using Suc.prems(1) by (metis add.right_neutral zero_less_Suc)
  have g0: "gen_attempt it < gen_maxAttempts it" using Suc.prems(2) by simp
  obtain it1 ext1 where s1: "poll_loop s it a tr = poll_loop s it1 (a + 1) (tr @ ext1)"
      and a1: "gen_attempt it1 = gen_attempt it + 1" and m1: "gen_maxAttempts it1 = gen_maxAttempts it"
      and f1: "fetches ext1 = 1" and d1: "Download \<notin> set ext1" and w1: "\<forall>d. WaitAborted d \<notin> set ext1"
    using poll_loop_step [OF p0 g0, of tr] by blast
  have pk: "\<forall>i<k. proceeds s (a + 1 + i)"
  proof (intro allI impI)
    fix i assume "i < k"
    then have "Suc i < Suc k" by simp
    then have "proceeds s (a + Suc i)" using Suc.prems(1) by blast
    then show "proceeds s (a + 1 + i)" by simp
  qed
  have gk: "gen_attempt it1 + k \<le> gen_maxAttempts it1" using Suc.prems(2) a1 m1 by simp
  obtain it2 ext2 where s2: "poll_loop s it1 (a + 1) (tr @ ext1) = poll_loop s it2 (a + 1 + k) ((tr @ ext1) @ ext2)"
      and a2: "gen_attempt it2 = gen_attempt it1 + k" and m2: "gen_maxAttempts it2 = gen_maxAttempts it1"
      and f2: "fetches ext2 = k" and d2: "Download \<notin> set ext2" and w2: "\<forall>d. WaitAborted d \<notin> set ext2"
    using Suc.IH [OF pk gk, of "tr @ ext1"] by blast
  have "poll_loop s it a tr = poll_loop s it2 (a + Suc k) (tr @ (ext1 @ ext2))"
    using s1 s2 by simp
  moreover have "gen_attempt it2 = gen_attempt it + Suc k" using a1 a2 by simp
  moreover have "gen_maxAttempts it2 = gen_maxAttempts it" using m1 m2 by simp
  moreover have "fetches (ext1 @ ext2) = Suc k" using f1 f2 by simp
  moreover have "Download \<notin> set (ext1 @ ext2)" using d1 d2 by simp
  moreover have "\<forall>d. WaitAborted d \<notin> set (ext1 @ ext2)" using w1 w2 by simp
  ultimately show ?case by blast
qed

lemma backoffIterator_fields:
  "gen_attempt (backoffIterator m c) = 0" "gen_maxAttempts (backoffIterator m c) = m"
  by (simp_all add: backoffIterator_def)

text \<open>
  Claim C7. Let the first \<open>k\<close> iterations of a session run to the end of their
  waits. If the signal is aborted when iteration \<open>k\<close> begins (for \<open>k = 0\<close>: it is
  aborted already when the loop is entered), the session ends there with the
  \<open>AbortError\<close>: its trace holds the \<open>k\<close> fetch calls made before and no
  download. If the abort fires during the wait of iteration \<open>k\<close>, the session ends
  with the \<open>AbortError\<close> and the interrupted wait is the last event of its trace:
  \<open>k + 1\<close> fetch calls were made, none after the abort, and there is no download.
\<close>

theorem cancellation_ends_session:
  assumes run: "\<forall>i<k. proceeds s i" and k: "k \<le> 60"
  shows "(entry_aborted s k \<longrightarrow>
            (\<exists>tr. waitAndDownload s = (Inl AbortError, tr) \<and> fetches tr = k \<and> Download \<notin> set tr))
       \<and> (\<not> entry_aborted s k \<and> retried (fetch_result s k) \<and> wait_aborted s k \<and> k < 60 \<longrightarrow>
            (\<exists>tr d. waitAndDownload s = (Inl AbortError, tr @ [WaitAborted d]) \<and> fetches tr = k + 1
                     \<and> Download \<notin> set tr))"
proof -
  have run': "\<forall>i<k. proceeds s (0 + i)" using run by simp
  have g: "gen_attempt (backoffIterator 60 15000) + k \<le> gen_maxAttempts (backoffIterator 60 15000)"
    using k by (simp add: backoffIterator_fields)
  obtain it' ext where eq: "poll_loop s (backoffIterator 60 15000) 0 [] = poll_loop s it' (0 + k) ([] @ ext)"
      and ga: "gen_attempt it' = gen_attempt (backoffIterator 60 15000) + k"
      and gm: "gen_maxAttempts it' = gen_maxAttempts (backoffIterator 60 15000)"
      and fe: "fetches ext = k" and nd: "Download \<notin> set ext"
    using poll_loop_run [OF run' g, of "[]"] by blast
  have eq': "pollForReady s = poll_loop s it' k ext"
    using eq by (simp add: pollForReady_def)
  have entry: "entry_aborted s k \<longrightarrow>
            (\<exists>tr. waitAndDownload s = (Inl AbortError, tr) \<and> fetches tr = k \<and> Download \<notin> set tr)"
  proof
    assume "entry_aborted s k"
    then have "poll_loop s it' k ext = (Inl AbortError, ext)"
      by (subst poll_loop.simps) simp
    then have "waitAndDownload s = (Inl AbortError, ext)"
      using eq' by (simp add: waitAndDownload_def)
    then show "\<exists>tr. waitAndDownload s = (Inl AbortError, tr) \<and> fetches tr = k \<and> Download \<notin> set tr"
      using fe nd by blast
  qed
  have wait: "\<not> entry_aborted s k \<and> retried (fetch_result s k) \<and> wait_aborted s k \<and> k < 60 \<longrightarrow>
            (\<exists>tr d. waitAndDownload s = (Inl AbortError, tr @ [WaitAborted d]) \<and> fetches tr = k + 1
                     \<and> Download \<notin> set tr)"
  proof
    assume h: "\<not> entry_aborted s k \<and> retried (fetch_result s k) \<and> wait_aborted s k \<and> k < 60"
    then have "gen_attempt it' < gen_maxAttempts it'"
      using ga gm by (simp add: backoffIterator_fields)
    then obtain d it'' where gn: "gen_next it' = (Some d, it'')"
      using gen_next_Some by blast
    obtain evs where f1: "fetches evs = 1" and nd1: "Download \<notin> set evs"
      and tc: "(try_block s k = (evs, Inr False)) \<or>
            (\<exists>e evs1 evs2. try_block s k = (evs1, Inl e) \<and> catch_block s k e = (evs2, None) \<and> evs = evs1 @ evs2)"
      using try_catch_retried [of s k] h by blast
    have "poll_loop s it' k ext = (Inl AbortError, (ext @ evs) @ [WaitAborted d])"
      using tc
    proof
      assume "try_block s k = (evs, Inr False)"
      then show ?thesis using h gn by (subst poll_loop.simps) simp
    next
      assume "\<exists>e evs1 evs2. try_block s k = (evs1, Inl e) \<and> catch_block s k e = (evs2, None) \<and> evs = evs1 @ evs2"
      then obtain e evs1 evs2 where "try_block s k = (evs1, Inl e)" "catch_block s k e = (evs2, None)" "evs = evs1 @ evs2"
        by blast
      then show ?thesis using h gn by (subst poll_loop.simps) simp
    qed
    then have "waitAndDownload s = (Inl AbortError, (ext @ evs) @ [WaitAborted d])"
      using eq' by (simp add: waitAndDownload_def)
    moreover have "fetches (ext @ evs) = k + 1" using fe f1 by simp
    moreover have "Download \<notin> set (ext @ evs)" using nd nd1 by simp
    ultimately show "\<exists>tr d. waitAndDownload s = (Inl AbortError, tr @ [WaitAborted d]) \<and> fetches tr = k + 1
                     \<and> Download \<notin> set tr"
      by blast
  qed
  show ?thesis using entry wait by (rule conjI)
qed

theorem cancellation_ends_session_witness:
  "proceeds cancelled_before_second_call 0 \<and> entry_aborted cancelled_before_second_call 1
   \<and> (\<exists>tr. waitAndDownload cancelled_before_second_call = (Inl AbortError, tr) \<and> fetches tr = 1 \<and> Download \<notin> set tr)
   \<and> retried (fetch_result cancelled_in_first_wait 0) \<and> wait_aborted cancelled_in_first_wait 0
   \<and> (\<exists>tr d. waitAndDownload cancelled_in_first_wait = (Inl AbortError, tr @ [WaitAborted d]) \<and> fetches tr = 0 + 1
                     \<and> Download \<notin> set tr)"
proof -
  have p0: "proceeds cancelled_before_second_call 0"
    by (simp add: proceeds_def cancelled_before_second_call_def entry_aborted_def wait_aborted_def retried_def)
  have e1: "entry_aborted cancelled_before_second_call 1"
    by (simp add: cancelled_before_second_call_def entry_aborted_def)
  have all1: "\<forall>i<1. proceeds cancelled_before_second_call i" using p0 by simp
  have a: "\<exists>tr. waitAndDownload cancelled_before_second_call = (Inl AbortError, tr) \<and> fetches tr = 1 \<and> Download \<notin> set tr"
    using cancellation_ends_session [OF all1, THEN conjunct1] e1 by simp
  have ne0: "\<not> entry_aborted cancelled_in_first_wait 0"
    by (simp add: cancelled_in_first_wait_def entry_aborted_def)
  have r0: "retried (fetch_result cancelled_in_first_wait 0)"
    by (simp add: cancelled_in_first_wait_def retried_def)
  have w0: "wait_aborted cancelled_in_first_wait 0"
    by (simp add: cancelled_in_first_wait_def wait_aborted_def)
  have all0: "\<forall>i<0. proceeds cancelled_in_first_wait i" by simp
  have b: "\<exists>tr d. waitAndDownload cancelled_in_first_wait = (Inl AbortError, tr @ [WaitAborted d]) \<and> fetches tr = 0 + 1
                     \<and> Download \<notin> set tr"
    using cancellation_ends_session [OF all0, THEN conjunct2] ne0 r0 w0 by simp
  show ?thesis using p0 e1 a r0 w0 b by (intro conjI)
qed

lemma waits_simps [simp]:
  "waits [] = 0"
  "waits (e # xs) = (if is_Wait e then 1 else 0) + waits xs"
  "waits (xs @ ys) = waits xs + waits ys"
  "waits (tick s a st m) = 0"
  by (simp_all add: waits_def tick_def is_Wait_def)

lemma downloads_simps [simp]:
  "downloads [] = 0"
  "downloads (e # xs) = (if e = Download then 1 else 0) + downloads xs"
  "downloads (xs @ ys) = downloads xs + downloads ys"
  "downloads (tick s a st m) = 0"
  by (simp_all add: downloads_def tick_def)

lemma poll_loop_pending:
  assumes "\<not> entry_aborted s a" and "fetch_result s a = Response 202 t"
      and "\<not> wait_aborted s a" and "gen_next it = (Some d, it')"
  shows "poll_loop s it a tr = poll_loop s it' (a + 1) (tr @ Fetch a # tick s a 202 (js ''not ready'') @ [Wait d])"
  using assms by (subst poll_loop.simps) (simp add: try_block_def)

lemma poll_loop_ready:
  assumes "\<not> entry_aborted s a" and "fetch_result s a = Response 200 t"
  shows "poll_loop s it a tr = (Inr True, tr @ Fetch a # tick s a 200 (js ''ready''))"
  using assms by (subst poll_loop.simps) (simp add: try_block_def)

text \<open>
  Claim C4. When the endpoint answers 202 to the first two calls and 200 to the third,
  and the session is not cancelled on the way, the session makes three fetch calls,
  waits twice (after the first and after the second call, for the first two delays of
  the generator), returns ready, and the download is triggered once, as the last event
  after the third call.
\<close>

theorem pending_pending_ready:
  assumes f0: "fetch_result s 0 = Response 202 t0"
      and f1: "fetch_result s 1 = Response 202 t1"
      and f2: "fetch_result s 2 = Response 200 t2"
      and na: "\<not> entry_aborted s 0" "\<not> entry_aborted s 1" "\<not> entry_aborted s 2"
      and nw: "\<not> wait_aborted s 0" "\<not> wait_aborted s 1"
  shows "\<exists>tr. waitAndDownload s = (Inr True, tr)
           \<and> tr = Fetch 0 # tick s 0 202 (js ''not ready'') @ Wait 2000
                 # Fetch 1 # tick s 1 202 (js ''not ready'') @ Wait 3000
                 # Fetch 2 # tick s 2 200 (js ''ready'') @ [Download]
           \<and> fetches tr = 3 \<and> waits tr = 2 \<and> downloads tr = 1 \<and> last tr = Download"
proof -
  let ?it1 = "\<lparr>gen_a = 2000, gen_b = 3000, gen_attempt = 1, gen_maxAttempts = 60, gen_capMs = 15000\<rparr>"
  let ?it2 = "\<lparr>gen_a = 3000, gen_b = 5000, gen_attempt = 2, gen_maxAttempts = 60, gen_capMs = 15000\<rparr>"
  have g0: "gen_next (backoffIterator 60 15000) = (Some 2000, ?it1)"
    by (simp add: gen_next_def backoffIterator_def)
  have g1: "gen_next ?it1 = (Some 3000, ?it2)"
    by (simp add: gen_next_def)
  let ?X0 = "Fetch 0 # tick s 0 202 (js ''not ready'') @ [Wait 2000]"
  let ?X1 = "Fetch 1 # tick s 1 202 (js ''not ready'') @ [Wait 3000]"
  let ?X2 = "Fetch 2 # tick s 2 200 (js ''ready'')"
  have e1: "(0::nat) + 1 = 1" and e2: "(1::nat) + 1 = 2" by simp_all
  have s0: "poll_loop s (backoffIterator 60 15000) 0 [] = poll_loop s ?it1 (0 + 1) ([] @ ?X0)"
    by (rule poll_loop_pending [OF na(1) f0 nw(1) g0])
  have s1: "poll_loop s ?it1 1 ?X0 = poll_loop s ?it2 (1 + 1) (?X0 @ ?X1)"
    by (rule poll_loop_pending [OF na(2) f1 nw(2) g1])
  have s2: "poll_loop s ?it2 2 (?X0 @ ?X1) = (Inr True, (?X0 @ ?X1) @ ?X2)"
    by (rule poll_loop_ready [OF na(3) f2])
  from s0 have "poll_loop s (backoffIterator 60 15000) 0 [] = poll_loop s ?it1 1 ?X0"
    unfolding e1 append_Nil .
  also from s1 have "\<dots> = poll_loop s ?it2 2 (?X0 @ ?X1)"
    unfolding e2 .
  also note s2
  finally have "pollForReady s = (Inr True, (?X0 @ ?X1) @ ?X2)"
    by (simp only: pollForReady_def)
  then have "waitAndDownload s = (Inr True, Fetch 0 # tick s 0 202 (js ''not ready'') @ Wait 2000
                 # Fetch 1 # tick s 1 202 (js ''not ready'') @ Wait 3000
                 # Fetch 2 # tick s 2 200 (js ''ready'') @ [Download])"
    by (simp add: waitAndDownload_def)
  then show ?thesis
    by (simp add: is_Fetch_def is_Wait_def)
qed

theorem pending_pending_ready_witness:
  "waitAndDownload \<lparr>signal = None, onTick = True,
      fetch_result = (\<lambda>i. if i < 2 then Response 202 None else Response 200 None)\<rparr>
    = (Inr True, [Fetch 0, Tick 0 202 (js ''not ready''), Wait 2000,
                  Fetch 1, Tick 1 202 (js ''not ready''), Wait 3000,
                  Fetch 2, Tick 2 200 (js ''ready''), Download])"
  using pending_pending_ready [of "\<lparr>signal = None, onTick = True,
      fetch_result = (\<lambda>i. if i < 2 then Response 202 None else Response 200 None)\<rparr>" None None None]
  by (simp add: entry_aborted_def wait_aborted_def tick_def)

text \<open>
  A session whose 61 calls are all answered in a way that is retried uses up the
  generator and ends with \<open>Polling timed out\<close>; an endpoint that always answers
  410 is such a session.
\<close>

lemma rejected_forever_times_out:
  assumes run: "\<forall>i<61. proceeds s i"
  shows "\<exists>tr. waitAndDownload s = (Inl timed_out, tr) \<and> fetches tr = 61 \<and> Download \<notin> set tr"
proof -
  have run': "\<forall>i<60. proceeds s (0 + i)" using run by simp
  have g: "gen_attempt (backoffIterator 60 15000) + 60 \<le> gen_maxAttempts (backoffIterator 60 15000)"
    by (simp add: backoffIterator_fields)
  obtain it' ext where eq: "poll_loop s (backoffIterator 60 15000) 0 [] = poll_loop s it' (0 + 60) ([] @ ext)"
      and ga: "gen_attempt it' = gen_attempt (backoffIterator 60 15000) + 60"
      and gm: "gen_maxAttempts it' = gen_maxAttempts (backoffIterator 60 15000)"
      and fe: "fetches ext = 60" and nd: "Download \<notin> set ext"
    using poll_loop_run [OF run' g, of "[]"] by blast
  have gn: "gen_next it' = (None, it')"
    using ga gm by (simp add: gen_next_def backoffIterator_fields)
  have p: "proceeds s 60" using run by simp
  then have ne: "\<not> entry_aborted s 60" and r: "retried (fetch_result s 60)"
    by (simp_all add: proceeds_def)
  obtain evs where f1: "fetches evs = 1" and nd1: "Download \<notin> set evs"
      and tc: "(try_block s 60 = (evs, Inr False)) \<or>
            (\<exists>e evs1 evs2. try_block s 60 = (evs1, Inl e) \<and> catch_block s 60 e = (evs2, None) \<and> evs = evs1 @ evs2)"
    using try_catch_retried [OF r] by blast
  have "poll_loop s it' 60 ext = (Inl timed_out, ext @ evs)"
    using tc
  proof
    assume "try_block s 60 = (evs, Inr False)"
    then show ?thesis using ne gn by (subst poll_loop.simps) simp
  next
    assume "\<exists>e evs1 evs2. try_block s 60 = (evs1, Inl e) \<and> catch_block s 60 e = (evs2, None) \<and> evs = evs1 @ evs2"
    then obtain e evs1 evs2 where "try_block s 60 = (evs1, Inl e)" "catch_block s 60 e = (evs2, None)" "evs = evs1 @ evs2"
      by blast
    then show ?thesis using ne gn by (subst poll_loop.simps) simp
  qed
  then have "waitAndDownload s = (Inl timed_out, ext @ evs)"
    using eq by (simp add: waitAndDownload_def pollForReady_def)
  moreover have "fetches (ext @ evs) = 61" using fe f1 by simp
  moreover have "Download \<notin> set (ext @ evs)" using nd nd1 by simp
  ultimately show ?thesis by blast
qed

lemma expired_forever_times_out:
  "\<exists>tr. waitAndDownload \<lparr>signal = None, onTick = True, fetch_result = (\<lambda>i. Response 410 None)\<rparr>
           = (Inl timed_out, tr) \<and> fetches tr = 61 \<and> Download \<notin> set tr"
  by (rule rejected_forever_times_out)
     (simp add: proceeds_def entry_aborted_def wait_aborted_def retried_def)

text \<open>
  Claim C1 says that a 400 or 410 answer ends the session as rejected, with no further
  fetch call, no wait and no download, which is also what the comment above
  \<open>pollForReady\<close> says. In the code the two errors are thrown inside the \<open>try\<close>
  block whose \<open>catch\<close> swallows every error but an \<open>AbortError\<close>, so they are
  retried like a network error. On an endpoint that answers 410 and then 200 the
  session reports the expiry, waits 2000 ms, calls again and triggers the download.
\<close>

theorem expired_response_is_retried:
  "waitAndDownload \<lparr>signal = None, onTick = True,
      fetch_result = (\<lambda>i. if i = 0 then Response 410 None else Response 200 None)\<rparr>
    = (Inr True, [Fetch 0, Tick 0 410 (js ''Result expired. Please start a new job.''),
                  Tick 0 0 (js ''Result expired. Please start a new job.''), Wait 2000,
                  Fetch 1, Tick 1 200 (js ''ready''), Download])"
  unfolding waitAndDownload_def pollForReady_def
  apply (subst poll_loop.simps)
  apply (simp add: entry_aborted_def wait_aborted_def try_block_def catch_block_def tick_def
      Error_with_status_def gen_next_def backoffIterator_def js_def Let_def)
  apply (subst poll_loop.simps)
  apply (simp add: entry_aborted_def try_block_def tick_def js_def)
  done

section \<open>The leads payload validator\<close>

lemma seed_items_ok_iff: "seed_items_ok us \<longleftrightarrow> list_all nonblank_string us"
  by (induction us) (auto simp: nonblank_string_def blank_def split: json.splits)

lemma typeof_object_iff: "typeof (Some v) = js ''object'' \<longleftrightarrow> \<not> primitive v"
  by (cases v) (simp_all add: typeof_def primitive_def js_def)

lemma INVALID_FILTERS_distinct:
  "js ''INVALID_JSON'' \<noteq> js ''INVALID_FILTERS''"
  "js ''INVALID_SEED'' \<noteq> js ''INVALID_FILTERS''"
  "js ''INVALID_SEED_ITEM'' \<noteq> js ''INVALID_FILTERS''"
  by (simp_all add: js_def)

lemma validatePayload_seeds_ok:
  assumes "property payload (js ''seedUserNames'') = Some (JArr us)" and "us \<noteq> []"
      and "list_all nonblank_string us"
  shows "validatePayload payload =
           (case property payload (js ''filters'') of
              None \<Rightarrow> Valid ()
            | Some f \<Rightarrow> if primitive f
                        then Invalid (js ''filters must be an object if provided.'') (js ''INVALID_FILTERS'')
                        else Valid ())"
proof -
  obtain kvs where p: "payload = JObj kvs"
    using assms(1) by (cases payload) (simp_all add: property_def)
  have t: "typeof (Some payload) = js ''object''"
    using p by (simp add: typeof_def)
  show ?thesis
    using assms p t
    by (auto simp: validatePayload_def Let_def seed_items_ok_iff typeof_object_iff split: option.splits)
qed

lemma validatePayload_INVALID_FILTERS:
  assumes "validatePayload payload = Invalid msg (js ''INVALID_FILTERS'')"
  shows "\<exists>f. property payload (js ''filters'') = Some f \<and> primitive f"
  using assms INVALID_FILTERS_distinct
  by (auto simp: validatePayload_def Let_def typeof_object_iff
      split: if_splits option.splits json.splits)

lemma handler_generate_leads_forwards:
  assumes "req_method req = js ''POST''" and "getBackendBase backend_url = Inr base"
      and "req_body req = Inr body" and "JSON_parse (if body \<noteq> [] then body else js ''{}'') = Some payload"
      and "validatePayload payload = Valid ()"
  shows "handler_generate_leads backend_url JSON_parse forward req
           = (case forward (base @ js ''/marketing/generate_leads'') (Json payload) (setCors_leads new_response) of
                (Some err, res') \<Rightarrow> internal_error_leads (js ''Proxy error (generate_leads):'') err res'
              | (None, res') \<Rightarrow> completed res')"
proof -
  have ne: "js ''POST'' \<noteq> js ''OPTIONS''" by (simp add: js_def)
  show ?thesis
    using assms ne
    by (simp add: handler_generate_leads_def Let_def split: prod.splits option.splits)
qed

lemma handler_generate_dm_list_forwards:
  assumes "req_method req = js ''POST''" and "getBackendBase backend_url = Inr base"
      and "req_body req = Inr csvText" and "validateCsv csvText = Valid n"
  shows "handler_generate_dm_list backend_url forward req
           = (case forward (base @ js ''/marketing/generate_dm_list'') (Text (csvToSend csvText)) (setCors new_response) of
                (Some err, res') \<Rightarrow> internal_error (js ''Proxy error (generate_dm_list):'') err res'
              | (None, res') \<Rightarrow> completed res')"
proof -
  have ne: "js ''POST'' \<noteq> js ''OPTIONS''" by (simp add: js_def)
  show ?thesis
    using assms ne
    by (simp add: handler_generate_dm_list_def Let_def split: prod.splits option.splits)
qed

text \<open>
  Claim C10. A payload with a valid \<open>seedUserNames\<close> whose \<open>filters\<close> is
  \<open>null\<close> or an array passes the validator. The code \<open>INVALID_FILTERS\<close> comes
  only for a payload that has a \<open>filters\<close> property whose value is a boolean, a
  number or a string, and with valid seeds every such payload gets it. A payload that
  passed is forwarded whole: the handler sends \<open>JSON.stringify\<close> of the parsed body,
  \<open>filters\<close> included as it was parsed, to the upstream leads endpoint.
\<close>

theorem validatePayload_filters:
  "(property payload (js ''seedUserNames'') = Some (JArr us) \<and> us \<noteq> [] \<and> list_all nonblank_string us
      \<and> (property payload (js ''filters'') = Some JNull \<or> property payload (js ''filters'') = Some (JArr xs))
     \<longrightarrow> validatePayload payload = Valid ())
   \<and> (validatePayload payload = Invalid msg (js ''INVALID_FILTERS'')
     \<longrightarrow> (\<exists>f. property payload (js ''filters'') = Some f \<and> primitive f))
   \<and> (property payload (js ''seedUserNames'') = Some (JArr us) \<and> us \<noteq> [] \<and> list_all nonblank_string us
      \<and> property payload (js ''filters'') = Some f \<and> primitive f
     \<longrightarrow> validatePayload payload = Invalid (js ''filters must be an object if provided.'') (js ''INVALID_FILTERS''))
   \<and> (req_method req = js ''POST'' \<and> getBackendBase backend_url = Inr base \<and> req_body req = Inr body
      \<and> JSON_parse (if body \<noteq> [] then body else js ''{}'') = Some payload \<and> validatePayload payload = Valid ()
     \<longrightarrow> handler_generate_leads backend_url JSON_parse forward req
           = (case forward (base @ js ''/marketing/generate_leads'') (Json payload) (setCors_leads new_response) of
                (Some err, res') \<Rightarrow> internal_error_leads (js ''Proxy error (generate_leads):'') err res'
              | (None, res') \<Rightarrow> completed res'))"
proof (intro conjI impI)
  assume a: "property payload (js ''seedUserNames'') = Some (JArr us) \<and> us \<noteq> [] \<and> list_all nonblank_string us
      \<and> (property payload (js ''filters'') = Some JNull \<or> property payload (js ''filters'') = Some (JArr xs))"
  then show "validatePayload payload = Valid ()"
    using validatePayload_seeds_ok [of payload us] by (auto simp: primitive_def)
next
  assume "validatePayload payload = Invalid msg (js ''INVALID_FILTERS'')"
  then show "\<exists>f. property payload (js ''filters'') = Some f \<and> primitive f"
    by (rule validatePayload_INVALID_FILTERS)
next
  assume "property payload (js ''seedUserNames'') = Some (JArr us) \<and> us \<noteq> [] \<and> list_all nonblank_string us
      \<and> property payload (js ''filters'') = Some f \<and> primitive f"
  then show "validatePayload payload = Invalid (js ''filters must be an object if provided.'') (js ''INVALID_FILTERS'')"
    using validatePayload_seeds_ok [of payload us] by auto
next
  assume "req_method req = js ''POST'' \<and> getBackendBase backend_url = Inr base \<and> req_body req = Inr body
      \<and> JSON_parse (if body \<noteq> [] then body else js ''{}'') = Some payload \<and> validatePayload payload = Valid ()"
  then show "handler_generate_leads backend_url JSON_parse forward req
           = (case forward (base @ js ''/marketing/generate_leads'') (Json payload) (setCors_leads new_response) of
                (Some err, res') \<Rightarrow> internal_error_leads (js ''Proxy error (generate_leads):'') err res'
              | (None, res') \<Rightarrow> completed res')"
    using handler_generate_leads_forwards by blast
qed

theorem validatePayload_filters_witness:
  "validatePayload leads_with_null_filters = Valid ()
   \<and> validatePayload leads_with_text_filters = Invalid (js ''filters must be an object if provided.'') (js ''INVALID_FILTERS'')
   \<and> primitive (JStr (js ''verified''))
   \<and> (\<exists>f. property leads_with_text_filters (js ''filters'') = Some f \<and> primitive f)
   \<and> ended (sent (handler_generate_leads (Some (js ''http://backend:8080/'')) parse_example echo_upstream post_leads))
        = Some (Json leads_with_null_filters)"
proof -
  have s1: "property leads_with_null_filters (js ''seedUserNames'') = Some (JArr [JStr (js ''alice'')])"
    by (simp add: leads_with_null_filters_def property_def js_def)
  have f1: "property leads_with_null_filters (js ''filters'') = Some JNull"
    by (simp add: leads_with_null_filters_def property_def js_def)
  have s2: "property leads_with_text_filters (js ''seedUserNames'') = Some (JArr [JStr (js ''alice'')])"
    by (simp add: leads_with_text_filters_def property_def js_def)
  have f2: "property leads_with_text_filters (js ''filters'') = Some (JStr (js ''verified''))"
    by (simp add: leads_with_text_filters_def property_def js_def)
  have nb: "list_all nonblank_string [JStr (js ''alice'')]"
    by (simp add: nonblank_string_def blank_def trim_def is_space_def js_def)
  have pr: "primitive (JStr (js ''verified''))"
    by (simp add: primitive_def)
  have a: "validatePayload leads_with_null_filters = Valid ()"
    using validatePayload_filters [of leads_with_null_filters "[JStr (js ''alice'')]" "[]", THEN conjunct1]
      s1 f1 nb by simp
  have b: "validatePayload leads_with_text_filters
             = Invalid (js ''filters must be an object if provided.'') (js ''INVALID_FILTERS'')"
    using validatePayload_filters [of leads_with_text_filters "[JStr (js ''alice'')]" _ _ "JStr (js ''verified'')",
        THEN conjunct2, THEN conjunct2, THEN conjunct1]
      s2 f2 nb pr by simp
  have m: "req_method post_leads = js ''POST''"
    by (simp add: post_leads_def)
  have g: "getBackendBase (Some (js ''http://backend:8080/'')) = Inr (js ''http://backend:8080'')"
    by (simp add: getBackendBase_def js_def)
  have bd: "req_body post_leads = Inr (js ''{\"seedUserNames\":[\"alice\"],\"filters\":null}'')"
    by (simp add: post_leads_def)
  have ps: "parse_example (if js ''{\"seedUserNames\":[\"alice\"],\"filters\":null}'' \<noteq> []
                            then js ''{\"seedUserNames\":[\"alice\"],\"filters\":null}'' else js ''{}'')
              = Some leads_with_null_filters"
    by (simp add: parse_example_def js_def)
  have c: "handler_generate_leads (Some (js ''http://backend:8080/'')) parse_example echo_upstream post_leads
             = (case echo_upstream (js ''http://backend:8080'' @ js ''/marketing/generate_leads'')
                       (Json leads_with_null_filters) (setCors_leads new_response) of
                  (Some err, res') \<Rightarrow> internal_error_leads (js ''Proxy error (generate_leads):'') err res'
                | (None, res') \<Rightarrow> completed res')"
    using validatePayload_filters [of leads_with_null_filters _ _ _ _ post_leads
        "Some (js ''http://backend:8080/'')" "js ''http://backend:8080''"
        "js ''{\"seedUserNames\":[\"alice\"],\"filters\":null}''" parse_example echo_upstream,
        THEN conjunct2, THEN conjunct2, THEN conjunct2]
      m g bd ps a by blast
  have d: "ended (sent (handler_generate_leads (Some (js ''http://backend:8080/'')) parse_example echo_upstream post_leads))
        = Some (Json leads_with_null_filters)"
    unfolding c by (simp add: echo_upstream_def completed_def end_with_def)
  have e: "\<exists>f. property leads_with_text_filters (js ''filters'') = Some f \<and> primitive f"
    using validatePayload_filters [of leads_with_text_filters _ _ "js ''filters must be an object if provided.''",
        THEN conjunct2, THEN conjunct1] b by blast
  show ?thesis using a b pr e d by (intro conjI)
qed

text \<open>The payload of the specification's scenario: the second seed is blank.\<close>

lemma scenario_leads:
  "validatePayload (JObj [(js ''seedUserNames'', JArr [JStr (js ''a''), JStr (js '' '')])])
     = Invalid (js ''Each seed user name must be a non-empty string.'') (js ''INVALID_SEED_ITEM'')"
  by (simp add: validatePayload_def typeof_def property_def trim_def is_space_def js_def)

section \<open>The result-URL rewriter\<close>

subsection \<open>What \<open>encodeURIComponent\<close> puts out\<close>

lemma hex_digits_unescaped: "list_all (\<lambda>n. uri_unescaped (hex_digit n)) [0..<16]"
  by (simp add: upt_rec hex_digit_def uri_unescaped_def is_digit_def is_alpha_def)

lemma hex_digit_unescaped: "n < 16 \<Longrightarrow> uri_unescaped (hex_digit n)"
  using hex_digits_unescaped by (simp add: list_all_iff)

lemma list_all_concat_map:
  "list_all (\<lambda>b. list_all P (f b)) bs \<Longrightarrow> list_all P (concat (map f bs))"
  by (induction bs) auto

lemma percent_safe: "b < 256 \<Longrightarrow> list_all uri_safe (percent b)"
proof -
  assume b: "b < 256"
  then have "b div 16 < 16" and "b mod 16 < 16" by auto
  then show ?thesis
    by (simp add: percent_def uri_safe_def hex_digit_unescaped)
qed

lemma utf8_bytes: "cp < 0x110000 \<Longrightarrow> list_all (\<lambda>b. b < 256) (utf8 cp)"
  by (auto simp: utf8_def)

lemma escape_safe: "cp < 0x110000 \<Longrightarrow> list_all uri_safe (escape cp)"
proof -
  assume "cp < 0x110000"
  then have "list_all (\<lambda>b. b < 256) (utf8 cp)" by (rule utf8_bytes)
  then have "list_all (\<lambda>b. list_all uri_safe (percent b)) (utf8 cp)"
    by (rule list.pred_mono_strong) (rule percent_safe)
  then show ?thesis
    unfolding escape_def by (rule list_all_concat_map)
qed

lemma unat_code_unit: "unat (c :: code_unit) < 0x10000"
  using unsigned_less [of c, where 'a = nat] by simp

lemma surrogate_pair_bound:
  assumes "lead_surrogate c" and "trail_surrogate d"
  shows "0x10000 + (unat c - 0xD800) * 0x400 + (unat d - 0xDC00) < (0x110000 :: nat)"
proof -
  have "unat c \<le> 0xDBFF" using assms(1) by (simp add: lead_surrogate_def word_le_nat_alt)
  moreover have "unat d \<le> 0xDFFF" using assms(2) by (simp add: trail_surrogate_def word_le_nat_alt)
  ultimately show ?thesis by simp
qed

lemma encodeURIComponent_safe:
  "encodeURIComponent s = Some e \<Longrightarrow> list_all uri_safe e"
proof (induction s arbitrary: e rule: encodeURIComponent.induct)
  case 1
  then show ?case by simp
next
  case (2 c cs)
  show ?case
  proof (cases "uri_unescaped c")
    case True
    then obtain r where "encodeURIComponent cs = Some r" "e = c # r"
      using "2.prems" by auto
    then show ?thesis using "2.IH"(1) [OF True] True by (simp add: uri_safe_def)
  next
    case nu: False
    show ?thesis
    proof (cases "trail_surrogate c")
      case True
      then show ?thesis using "2.prems" nu by simp
    next
      case nt: False
      show ?thesis
      proof (cases "lead_surrogate c")
        case True
        then obtain d ds r where cs: "cs = d # ds" and td: "trail_surrogate d"
            and r: "encodeURIComponent ds = Some r"
            and e: "e = escape (0x10000 + (unat c - 0xD800) * 0x400 + (unat d - 0xDC00)) @ r"
          using "2.prems" nu nt by (auto split: list.splits if_splits)
        have "list_all uri_safe r"
          using "2.IH"(2) [OF nu nt True cs td r] .
        moreover have "list_all uri_safe (escape (0x10000 + (unat c - 0xD800) * 0x400 + (unat d - 0xDC00)))"
          using escape_safe surrogate_pair_bound [OF True td] by blast
        ultimately show ?thesis using e by simp
      next
        case False
        then obtain r where r: "encodeURIComponent cs = Some r" and e: "e = escape (unat c) @ r"
          using "2.prems" nu nt by auto
        have "list_all uri_safe r" using "2.IH"(3) [OF nu nt False r] .
        moreover have "unat c < 0x110000" using unat_code_unit [of c] by simp
        then have "list_all uri_safe (escape (unat c))" by (rule escape_safe)
        ultimately show ?thesis using e by simp
      qed
    qed
  qed
qed

lemma uri_safe_excludes:
  "\<not> uri_safe 0x3A" "\<not> uri_safe 0x2F" "\<not> uri_safe 0x3F" "\<not> uri_safe 0x26" "\<not> uri_safe 0x23" "\<not> uri_safe 0x40"
  by (simp_all add: uri_safe_def uri_unescaped_def is_alpha_def is_digit_def js_def)

subsection \<open>Rewriting\<close>

lemma strict_token_eq:
  "strict_token absolute x = (case strict_parse_token absolute x of None \<Rightarrow> None | Some t \<Rightarrow> encodeURIComponent t)"
  by (simp add: strict_token_def strict_parse_token_def split: url_parse.splits option.splits)

lemma no_scheme_examples:
  "\<not> has_scheme (js ''null'')" "\<not> has_scheme (js ''undefined'')" "\<not> has_scheme []"
  by (simp_all add: has_scheme_def js_def c0_or_space_def tab_or_newline_def is_alpha_def scheme_char_def is_digit_def)

lemma strict_parse_token_empty:
  "strict_parse_token absolute Null = None"
  "strict_parse_token absolute Undefined = None"
  "strict_parse_token absolute (Str []) = None"
  using no_scheme_examples
  by (simp_all add: strict_parse_token_def URL_token_def ToString_def)

lemma strict_token_safe: "strict_token absolute x = Some e \<Longrightarrow> list_all uri_safe e"
  by (auto simp: strict_token_eq split: option.splits dest: encodeURIComponent_safe)

lemma rewriteResultUrl_cases:
  "rewriteResultUrl absolute x = Inr out \<Longrightarrow>
     out = js ''/api/results'' \<or> (\<exists>e. out = js ''/api/results?token='' @ e \<and> list_all uri_safe e)"
  by (auto simp: rewriteResultUrl_def split: option.splits dest: encodeURIComponent_safe strict_token_safe)

text \<open>
  Claim C9. When neither the strict parse nor the regular expression finds a token in
  the result location, the rewriter returns \<open>/api/results\<close>, with no query string.
  For \<open>null\<close>, a missing field and the empty string this holds whatever the
  platform's parser does with absolute URLs: they have no scheme, so the strict parse
  throws, and there is nothing for the regular expression to match.
\<close>

theorem rewriteResultUrl_no_token:
  "(strict_parse_token absolute x = None \<and> regex_token (or_empty x) = None
      \<longrightarrow> rewriteResultUrl absolute x = Inr (js ''/api/results''))
   \<and> rewriteResultUrl absolute Null = Inr (js ''/api/results'')
   \<and> rewriteResultUrl absolute Undefined = Inr (js ''/api/results'')
   \<and> rewriteResultUrl absolute (Str []) = Inr (js ''/api/results'')"
  using strict_parse_token_empty [of absolute]
  by (simp add: rewriteResultUrl_def strict_token_eq or_empty_def)

theorem rewriteResultUrl_no_token_witness:
  "strict_parse_token absolute_example (Str (js ''https://backend.internal:8080/results'')) = None
   \<and> regex_token (or_empty (Str (js ''https://backend.internal:8080/results''))) = None
   \<and> rewriteResultUrl absolute_example (Str (js ''https://backend.internal:8080/results'')) = Inr (js ''/api/results'')"
proof -
  have a: "strict_parse_token absolute_example (Str (js ''https://backend.internal:8080/results'')) = None"
    by (simp add: strict_parse_token_def URL_token_def ToString_def absolute_example_def js_def)
  have b: "regex_token (or_empty (Str (js ''https://backend.internal:8080/results''))) = None"
    by (simp add: or_empty_def js_def)
  show ?thesis
    using rewriteResultUrl_no_token [of absolute_example "Str (js ''https://backend.internal:8080/results'')"] a b
    by simp
qed

lemma colon_not_in_path: "0x3A \<notin> set (js ''/api/results'')" "0x3A \<notin> set (js ''/api/results?token='')"
  by (simp_all add: js_def)

text \<open>
  Claim C3, as the code has it. When the strict parse finds a token, or it finds none
  and the regular expression finds one, and \<open>encodeURIComponent\<close> can encode the
  token (it holds no surrogate without its partner), the rewriter returns
  \<open>/api/results?token=\<close> followed by the encoded token. Whatever the input, a
  returned string is \<open>/api/results\<close>, or \<open>/api/results?token=\<close> followed by
  unreserved characters and percent escapes only, with no slash among them; it holds
  no colon and no \<open>@\<close>. So nothing of the input but its token reaches the output:
  no scheme, no authority, no port.
\<close>

theorem rewriteResultUrl_token:
  "(strict_parse_token absolute x = Some t \<and> encodeURIComponent t = Some e
      \<longrightarrow> rewriteResultUrl absolute x = Inr (js ''/api/results?token='' @ e))
   \<and> (strict_parse_token absolute x = None \<and> regex_token (or_empty x) = Some t \<and> encodeURIComponent t = Some e
      \<longrightarrow> rewriteResultUrl absolute x = Inr (js ''/api/results?token='' @ e))
   \<and> (rewriteResultUrl absolute x = Inr out
      \<longrightarrow> (out = js ''/api/results''
           \<or> (\<exists>enc. out = js ''/api/results?token='' @ enc \<and> list_all uri_safe enc \<and> 0x2F \<notin> set enc))
          \<and> 0x3A \<notin> set out \<and> 0x40 \<notin> set out)"
proof (intro conjI impI)
  assume "strict_parse_token absolute x = Some t \<and> encodeURIComponent t = Some e"
  then show "rewriteResultUrl absolute x = Inr (js ''/api/results?token='' @ e)"
    by (simp add: rewriteResultUrl_def strict_token_eq)
next
  assume "strict_parse_token absolute x = None \<and> regex_token (or_empty x) = Some t \<and> encodeURIComponent t = Some e"
  then show "rewriteResultUrl absolute x = Inr (js ''/api/results?token='' @ e)"
    by (simp add: rewriteResultUrl_def strict_token_eq)
next
  assume r: "rewriteResultUrl absolute x = Inr out"
  then show "out = js ''/api/results''
           \<or> (\<exists>enc. out = js ''/api/results?token='' @ enc \<and> list_all uri_safe enc \<and> 0x2F \<notin> set enc)"
    using rewriteResultUrl_cases [OF r] uri_safe_excludes by (auto simp: list_all_iff)
next
  assume r: "rewriteResultUrl absolute x = Inr out"
  show "0x3A \<notin> set out"
    using rewriteResultUrl_cases [OF r] uri_safe_excludes colon_not_in_path by (auto simp: list_all_iff)
next
  assume r: "rewriteResultUrl absolute x = Inr out"
  show "0x40 \<notin> set out"
    using rewriteResultUrl_cases [OF r] uri_safe_excludes by (auto simp: list_all_iff js_def)
qed

theorem rewriteResultUrl_token_witness:
  "strict_parse_token absolute_example (Str (js ''https://backend.internal:8080/results?token=abc%20d&x=1'')) = Some (js ''abc d'')
   \<and> encodeURIComponent (js ''abc d'') = Some (js ''abc%20d'')
   \<and> rewriteResultUrl absolute_example (Str (js ''https://backend.internal:8080/results?token=abc%20d&x=1''))
        = Inr (js ''/api/results?token=abc%20d'')
   \<and> strict_parse_token absolute_example (Str (js ''/results?x=1&token=a/b'')) = None
   \<and> regex_token (or_empty (Str (js ''/results?x=1&token=a/b''))) = Some (js ''a/b'')
   \<and> encodeURIComponent (js ''a/b'') = Some (js ''a%2Fb'')
   \<and> rewriteResultUrl absolute_example (Str (js ''/results?x=1&token=a/b'')) = Inr (js ''/api/results?token=a%2Fb'')
   \<and> 0x3A \<notin> set (js ''/api/results?token=abc%20d'')"
proof -
  have a1: "strict_parse_token absolute_example (Str (js ''https://backend.internal:8080/results?token=abc%20d&x=1'')) = Some (js ''abc d'')"
    by (simp add: strict_parse_token_def URL_token_def ToString_def absolute_example_def has_scheme_def
        c0_or_space_def tab_or_newline_def is_alpha_def scheme_char_def is_digit_def js_def)
  have a2: "encodeURIComponent (js ''abc d'') = Some (js ''abc%20d'')"
    by (simp add: js_def uri_unescaped_def is_alpha_def is_digit_def trail_surrogate_def lead_surrogate_def
        escape_def utf8_def percent_def hex_digit_def)
  have a3: "rewriteResultUrl absolute_example (Str (js ''https://backend.internal:8080/results?token=abc%20d&x=1''))
        = Inr (js ''/api/results?token=abc%20d'')"
    using rewriteResultUrl_token [of absolute_example
        "Str (js ''https://backend.internal:8080/results?token=abc%20d&x=1'')" "js ''abc d''" "js ''abc%20d''",
        THEN conjunct1] a1 a2
    by (simp add: js_def)
  have b1: "strict_parse_token absolute_example (Str (js ''/results?x=1&token=a/b'')) = None"
    by (simp add: strict_parse_token_def URL_token_def ToString_def has_scheme_def
        c0_or_space_def tab_or_newline_def is_alpha_def scheme_char_def is_digit_def js_def)
  have b2: "regex_token (or_empty (Str (js ''/results?x=1&token=a/b''))) = Some (js ''a/b'')"
    by (simp add: or_empty_def js_def)
  have b3: "encodeURIComponent (js ''a/b'') = Some (js ''a%2Fb'')"
    by (simp add: js_def uri_unescaped_def is_alpha_def is_digit_def trail_surrogate_def lead_surrogate_def
        escape_def utf8_def percent_def hex_digit_def)
  have b4: "rewriteResultUrl absolute_example (Str (js ''/results?x=1&token=a/b'')) = Inr (js ''/api/results?token=a%2Fb'')"
    using rewriteResultUrl_token [of absolute_example "Str (js ''/results?x=1&token=a/b'')" "js ''a/b''" "js ''a%2Fb''",
        THEN conjunct2, THEN conjunct1] b1 b2 b3
    by (simp add: js_def)
  have c: "0x3A \<notin> set (js ''/api/results?token=abc%20d'')"
    using rewriteResultUrl_token [of absolute_example
        "Str (js ''https://backend.internal:8080/results?token=abc%20d&x=1'')" _ _ "js ''/api/results?token=abc%20d''",
        THEN conjunct2, THEN conjunct2] a3
    by simp
  show ?thesis
    using a1 a2 a3 b1 b2 b3 b4 c by (intro conjI)
qed

text \<open>
  Claim C3 as it is stated fails in two ways. The output can contain the upstream's
  host name: it does when the token is that name. And an input with a token the
  regular expression reaches can make the rewriter throw instead of returning.
\<close>

theorem rewriteResultUrl_claim_counterexample:
  "rewriteResultUrl absolute_example (Str (js ''https://backend/results?token=backend''))
     = Inr (js ''/api/results?token=backend'')
   \<and> sublist (js ''backend'') (js ''/api/results?token=backend'')
   \<and> regex_token (js ''/results?token='' @ [0xD800]) = Some [0xD800]
   \<and> rewriteResultUrl absolute_example (Str (js ''/results?token='' @ [0xD800])) = Inl URIError"
proof -
  have a: "rewriteResultUrl absolute_example (Str (js ''https://backend/results?token=backend''))
     = Inr (js ''/api/results?token=backend'')"
    by (simp add: rewriteResultUrl_def strict_token_def URL_token_def ToString_def absolute_example_def
        has_scheme_def c0_or_space_def tab_or_newline_def is_alpha_def scheme_char_def is_digit_def js_def
        uri_unescaped_def)
  have b: "sublist (js ''backend'') (js ''/api/results?token=backend'')"
    by (simp add: js_def sublist_Cons_right)
  have c: "regex_token (js ''/results?token='' @ [0xD800]) = Some [0xD800]"
    by (simp add: js_def)
  have d: "rewriteResultUrl absolute_example (Str (js ''/results?token='' @ [0xD800])) = Inl URIError"
    by (simp add: rewriteResultUrl_def strict_token_def URL_token_def ToString_def or_empty_def
        has_scheme_def c0_or_space_def tab_or_newline_def is_alpha_def scheme_char_def is_digit_def js_def
        uri_unescaped_def trail_surrogate_def lead_surrogate_def)
  show ?thesis using a b c d by (intro conjI)
qed

section \<open>The proxy endpoints without their configuration\<close>

lemma sublist_length_le: "sublist xs ys \<Longrightarrow> length xs \<le> length ys"
  by (auto simp: sublist_def)

lemma message_not_in_short:
  "length t < 53 \<Longrightarrow> \<not> sublist (err_message missing_backend_url) t"
proof
  assume l: "length t < 53" and s: "sublist (err_message missing_backend_url) t"
  have "length (err_message missing_backend_url) = 53"
    by (simp add: missing_backend_url_def js_def)
  then show False using sublist_length_le [OF s] l by simp
qed

lemma getBackendBase_absent:
  "backend_url = None \<or> backend_url = Some [] \<Longrightarrow> getBackendBase backend_url = Inl missing_backend_url"
  by (auto simp: getBackendBase_def)

lemma internal_error_facts:
  "statusCode (sent (internal_error label err res)) = 500"
  "ended (sent (internal_error label err res)) = Some generic_body"
  "console_error (internal_error label err res) = [(label, err)]"
  "\<not> body_mentions (err_message missing_backend_url) (sent (internal_error label err res))"
  "statusCode (sent (internal_error_leads label err res)) = 500"
  "ended (sent (internal_error_leads label err res)) = Some generic_body"
  "console_error (internal_error_leads label err res) = [(label, err)]"
  "\<not> body_mentions (err_message missing_backend_url) (sent (internal_error_leads label err res))"
  by (simp_all add: internal_error_def internal_error_leads_def end_with_def setHeader_def generic_body_def
      body_mentions_def message_not_in_short js_def)

lemma other_method_facts:
  "\<not> body_mentions (err_message missing_backend_url) (sent (completed (end_with Empty res)))"
  "\<not> body_mentions (err_message missing_backend_url) (sent (completed (end_with (Text (js ''Method Not Allowed'')) res)))"
  by (simp_all add: completed_def end_with_def body_mentions_def message_not_in_short js_def)

text \<open>
  Claim C8, as the code has it. Let \<open>MARKETING_BACKEND_URL\<close> be unset or empty.
  Each of the three handlers answers a request made with its own method (POST for the
  two submit endpoints, GET for the result endpoint) with status 500 and the generic
  body \<open>{"error": "Internal Server Error"}\<close>, and the error that names the missing
  setting goes to \<open>console.error\<close>. The method checks come before the setting is
  read: a pre-flight \<open>OPTIONS\<close> request is answered 204 and any other method 405.
  Whatever the request, the message of that error occurs in no response body.
\<close>

theorem missing_backend_url_fails_closed:
  assumes "backend_url = None \<or> backend_url = Some []"
  shows "(req_method req = js ''POST'' \<longrightarrow>
            statusCode (sent (handler_generate_dm_list backend_url forward req)) = 500
          \<and> ended (sent (handler_generate_dm_list backend_url forward req)) = Some generic_body
          \<and> console_error (handler_generate_dm_list backend_url forward req)
               = [(js ''Proxy error (generate_dm_list):'', missing_backend_url)])
       \<and> (req_method req = js ''POST'' \<longrightarrow>
            statusCode (sent (handler_generate_leads backend_url JSON_parse forward req)) = 500
          \<and> ended (sent (handler_generate_leads backend_url JSON_parse forward req)) = Some generic_body
          \<and> console_error (handler_generate_leads backend_url JSON_parse forward req)
               = [(js ''Proxy error (generate_leads):'', missing_backend_url)])
       \<and> (req_method req = js ''GET'' \<longrightarrow>
            statusCode (sent (handler_results backend_url relay req)) = 500
          \<and> ended (sent (handler_results backend_url relay req)) = Some generic_body
          \<and> console_error (handler_results backend_url relay req)
               = [(js ''Proxy error (results):'', missing_backend_url)])
       \<and> (req_method req = js ''OPTIONS'' \<longrightarrow>
            statusCode (sent (handler_generate_dm_list backend_url forward req)) = 204
          \<and> statusCode (sent (handler_generate_leads backend_url JSON_parse forward req)) = 204
          \<and> statusCode (sent (handler_results backend_url relay req)) = 204)
       \<and> (req_method req \<noteq> js ''OPTIONS'' \<and> req_method req \<noteq> js ''POST'' \<longrightarrow>
            statusCode (sent (handler_generate_dm_list backend_url forward req)) = 405
          \<and> statusCode (sent (handler_generate_leads backend_url JSON_parse forward req)) = 405)
       \<and> (req_method req \<noteq> js ''OPTIONS'' \<and> req_method req \<noteq> js ''GET'' \<longrightarrow>
            statusCode (sent (handler_results backend_url relay req)) = 405)
       \<and> \<not> body_mentions (err_message missing_backend_url) (sent (handler_generate_dm_list backend_url forward req))
       \<and> \<not> body_mentions (err_message missing_backend_url) (sent (handler_generate_leads backend_url JSON_parse forward req))
       \<and> \<not> body_mentions (err_message missing_backend_url) (sent (handler_results backend_url relay req))"
proof -
  note g = getBackendBase_absent [OF assms]
  have ne: "js ''POST'' \<noteq> js ''OPTIONS''" "js ''GET'' \<noteq> js ''OPTIONS''"
    by (simp_all add: js_def)
  have dm: "req_method req = js ''POST'' \<Longrightarrow>
      handler_generate_dm_list backend_url forward req
        = internal_error (js ''Proxy error (generate_dm_list):'') missing_backend_url (setCors new_response)"
    using g ne by (simp add: handler_generate_dm_list_def Let_def)
  have ld: "req_method req = js ''POST'' \<Longrightarrow>
      handler_generate_leads backend_url JSON_parse forward req
        = internal_error_leads (js ''Proxy error (generate_leads):'') missing_backend_url (setCors_leads new_response)"
    using g ne by (simp add: handler_generate_leads_def Let_def)
  have rs: "req_method req = js ''GET'' \<Longrightarrow>
      handler_results backend_url relay req
        = internal_error (js ''Proxy error (results):'') missing_backend_url (setCors new_response)"
    using g ne by (simp add: handler_results_def Let_def)
  have op: "req_method req = js ''OPTIONS'' \<Longrightarrow>
            statusCode (sent (handler_generate_dm_list backend_url forward req)) = 204
          \<and> statusCode (sent (handler_generate_leads backend_url JSON_parse forward req)) = 204
          \<and> statusCode (sent (handler_results backend_url relay req)) = 204"
    by (simp add: handler_generate_dm_list_def handler_generate_leads_def handler_results_def Let_def
        completed_def end_with_def)
  have o1: "req_method req \<noteq> js ''OPTIONS'' \<and> req_method req \<noteq> js ''POST'' \<Longrightarrow>
            statusCode (sent (handler_generate_dm_list backend_url forward req)) = 405
          \<and> statusCode (sent (handler_generate_leads backend_url JSON_parse forward req)) = 405"
    by (simp add: handler_generate_dm_list_def handler_generate_leads_def Let_def completed_def end_with_def
        setHeader_def)
  have o2: "req_method req \<noteq> js ''OPTIONS'' \<and> req_method req \<noteq> js ''GET'' \<Longrightarrow>
            statusCode (sent (handler_results backend_url relay req)) = 405"
    by (simp add: handler_results_def Let_def completed_def end_with_def setHeader_def)
  have m1: "\<not> body_mentions (err_message missing_backend_url) (sent (handler_generate_dm_list backend_url forward req))"
    using g by (simp add: handler_generate_dm_list_def Let_def internal_error_facts other_method_facts)
  have m2: "\<not> body_mentions (err_message missing_backend_url) (sent (handler_generate_leads backend_url JSON_parse forward req))"
    using g by (simp add: handler_generate_leads_def Let_def internal_error_facts other_method_facts)
  have m3: "\<not> body_mentions (err_message missing_backend_url) (sent (handler_results backend_url relay req))"
    using g by (simp add: handler_results_def Let_def internal_error_facts other_method_facts)
  show ?thesis
    using dm ld rs op o1 o2 m1 m2 m3 by (simp add: internal_error_facts)
qed

theorem missing_backend_url_fails_closed_witness:
  "statusCode (sent (handler_generate_dm_list None no_upstream post_csv)) = 500
   \<and> ended (sent (handler_generate_dm_list None no_upstream post_csv)) = Some generic_body
   \<and> console_error (handler_generate_dm_list None no_upstream post_csv)
        = [(js ''Proxy error (generate_dm_list):'', missing_backend_url)]
   \<and> \<not> body_mentions (err_message missing_backend_url) (sent (handler_generate_dm_list None no_upstream post_csv))
   \<and> statusCode (sent (handler_generate_leads (Some []) parse_example no_upstream post_leads)) = 500
   \<and> ended (sent (handler_generate_leads (Some []) parse_example no_upstream post_leads)) = Some generic_body
   \<and> statusCode (sent (handler_results None no_upstream_relay get_result)) = 500
   \<and> ended (sent (handler_results None no_upstream_relay get_result)) = Some generic_body
   \<and> statusCode (sent (handler_results None no_upstream_relay preflight)) = 204
   \<and> statusCode (sent (handler_results None no_upstream_relay delete_result)) = 405"
proof -
  have m: "req_method post_csv = js ''POST''" by (simp add: post_csv_def)
  have ml: "req_method post_leads = js ''POST''" by (simp add: post_leads_def)
  have mg: "req_method get_result = js ''GET''" by (simp add: get_result_def)
  have mo: "req_method preflight = js ''OPTIONS''" by (simp add: preflight_def)
  have md: "req_method delete_result \<noteq> js ''OPTIONS'' \<and> req_method delete_result \<noteq> js ''GET''"
    by (simp add: delete_result_def js_def)
  have a: "(None :: jsstring option) = None \<or> None = Some []" by simp
  have b: "Some [] = None \<or> Some [] = Some ([] :: jsstring)" by simp
  have dm: "statusCode (sent (handler_generate_dm_list None no_upstream post_csv)) = 500
   \<and> ended (sent (handler_generate_dm_list None no_upstream post_csv)) = Some generic_body
   \<and> console_error (handler_generate_dm_list None no_upstream post_csv)
        = [(js ''Proxy error (generate_dm_list):'', missing_backend_url)]
   \<and> \<not> body_mentions (err_message missing_backend_url) (sent (handler_generate_dm_list None no_upstream post_csv))"
    using missing_backend_url_fails_closed [OF a, of post_csv no_upstream] m by simp
  have ld: "statusCode (sent (handler_generate_leads (Some []) parse_example no_upstream post_leads)) = 500
   \<and> ended (sent (handler_generate_leads (Some []) parse_example no_upstream post_leads)) = Some generic_body"
    using missing_backend_url_fails_closed [OF b, of post_leads no_upstream parse_example] ml by simp
  have rs: "statusCode (sent (handler_results None no_upstream_relay get_result)) = 500
   \<and> ended (sent (handler_results None no_upstream_relay get_result)) = Some generic_body"
    using missing_backend_url_fails_closed [OF a, of get_result _ _ no_upstream_relay] mg by simp
  have op: "statusCode (sent (handler_results None no_upstream_relay preflight)) = 204"
    using missing_backend_url_fails_closed [OF a, of preflight _ _ no_upstream_relay] mo by simp
  have ot: "statusCode (sent (handler_results None no_upstream_relay delete_result)) = 405"
    using missing_backend_url_fails_closed [OF a, of delete_result _ _ no_upstream_relay] md by simp
  show ?thesis using dm ld rs op ot by simp
qed

text \<open>
  Claim C8 as it is stated says that every answer is a 500. The pre-flight request is
  answered 204 with an empty body, with or without the setting.
\<close>

theorem preflight_without_backend_url:
  "statusCode (sent (handler_generate_dm_list None no_upstream preflight)) = 204
   \<and> ended (sent (handler_generate_dm_list None no_upstream preflight)) = Some Empty"
  by (simp add: handler_generate_dm_list_def preflight_def Let_def completed_def end_with_def)

end
